theory Spec2Isabelle
  imports Main "HOL-Library.AList" "HOL-Library.Multiset" "HOL-Library.Word"
begin

section \<open>Values shared by the adapter and the orchestrator\<close>

text \<open>
  Go strings are byte sequences, so a \<^typ>\<open>string\<close> (a list of 8-bit characters) holds
  them as they are; the non-ASCII literals of the source are written out as their UTF-8
  bytes. A value of Go's type \<open>any\<close> is one of the shapes the code switches on.
\<close>

datatype go_any =
    AnyNil
  | AnyString string
  | AnyMap "(string \<times> go_any) list"
  | AnyList "go_any list"
  | AnyNumber int
  | AnyBool bool

text \<open>\<open>map[string]any\<close>: an association list; the nil map and the empty map are both \<open>[]\<close>.\<close>

type_synonym args_map = "(string \<times> go_any) list"

section \<open>The Anthropic adapter: wire types (internal/adk/anthropic/types.go)\<close>

record ContentBlock =
  cb_type :: string
  cb_text :: string
  cb_id :: string
  cb_name :: string
  cb_input :: go_any
  cb_tool_use_id :: string
  cb_content :: go_any
  cb_is_error :: bool
  cb_thinking :: string
  cb_signature :: string

text \<open>The zero value of the struct; a Go composite literal sets the named fields on it.\<close>

definition ContentBlock_zero :: ContentBlock where
  "ContentBlock_zero =
     \<lparr>cb_type = [], cb_text = [], cb_id = [], cb_name = [], cb_input = AnyNil,
      cb_tool_use_id = [], cb_content = AnyNil, cb_is_error = False, cb_thinking = [],
      cb_signature = []\<rparr>"

text \<open>\<open>Message.Content\<close> has type \<open>any\<close>: a block slice, a string, or anything else.\<close>

datatype message_content =
    ContentBlocks "ContentBlock list"
  | ContentString string
  | ContentOther go_any

record Message =
  msg_role :: string
  msg_content :: message_content

subsection \<open>The role-merge step\<close>

fun toBlockSlice :: "message_content \<Rightarrow> ContentBlock list" where
  "toBlockSlice (ContentBlocks v) = v"
| "toBlockSlice (ContentString v) = [ContentBlock_zero\<lparr>cb_type := ''text'', cb_text := v\<rparr>]"
| "toBlockSlice (ContentOther v) = []"

text \<open>
  One iteration of the loop of \<open>mergeConsecutiveMessages\<close>: \<open>merged\<close> is the slice
  built so far, and the last element is updated in place when the roles agree.

  A block slice is held by its value, the list of its blocks. This is what \<open>append\<close>
  computes when the slices of the messages share no backing array, which is so for every
  list that \<open>toAnthropicMessages\<close>, the one caller, passes in: each message of that list
  holds the slice that one call of \<open>toContentBlocks\<close> has built from nil. Where two
  slices share a backing array with spare capacity, \<open>append\<close> can write into blocks that
  a later message still holds; the value lists do not show that, and nothing below is
  said about such lists.
\<close>

definition merge_step :: "Message list \<Rightarrow> Message \<Rightarrow> Message list" where
  "merge_step merged msg =
     (if merged \<noteq> [] \<and> msg_role (last merged) = msg_role msg
      then butlast merged @
        [(last merged)\<lparr>msg_content :=
           ContentBlocks (toBlockSlice (msg_content (last merged)) @
                          toBlockSlice (msg_content msg))\<rparr>]
      else merged @ [msg])"

definition mergeConsecutiveMessages :: "Message list \<Rightarrow> Message list" where
  "mergeConsecutiveMessages messages =
     (if length messages \<le> 1 then messages else foldl merge_step [] messages)"


section \<open>Canonical responses (the genai and adk model packages)\<close>

record FunctionCall =
  fc_id :: string
  fc_name :: string
  fc_args :: args_map

record FunctionResponse =
  fr_id :: string
  fr_name :: string
  fr_response :: args_map

record Part =
  part_text :: string
  part_thought :: bool
  part_function_call :: "FunctionCall option"
  part_function_response :: "FunctionResponse option"

definition Part_zero :: Part where
  "Part_zero =
     \<lparr>part_text = [], part_thought = False, part_function_call = None,
      part_function_response = None\<rparr>"

record Content =
  content_role :: string
  content_parts :: "Part list"

text \<open>The token counts are \<open>int32\<close>; Go's \<open>int\<close> is 64 bits wide.\<close>

record UsageMetadata =
  um_prompt_token_count :: "32 word"
  um_candidates_token_count :: "32 word"
  um_total_token_count :: "32 word"

text \<open>
  \<open>genai.FinishReason\<close> is a string type; the zero value of a variable of that type is
  the empty string, which is none of the named constants.
\<close>

type_synonym FinishReason = string

definition FinishReasonUnspecified :: FinishReason where
  "FinishReasonUnspecified = ''FINISH_REASON_UNSPECIFIED''"

definition FinishReasonStop :: FinishReason where
  "FinishReasonStop = ''STOP''"

definition FinishReasonMaxTokens :: FinishReason where
  "FinishReasonMaxTokens = ''MAX_TOKENS''"

record LLMResponse =
  lr_content :: "Content option"
  lr_usage_metadata :: "UsageMetadata option"
  lr_finish_reason :: FinishReason
  lr_partial :: bool
  lr_turn_complete :: bool

definition LLMResponse_zero :: LLMResponse where
  "LLMResponse_zero =
     \<lparr>lr_content = None, lr_usage_metadata = None, lr_finish_reason = [],
      lr_partial = False, lr_turn_complete = False\<rparr>"

section \<open>Errors\<close>

text \<open>
  The sentinel errors of the context package and of the meeting package, an error that
  wraps nothing (\<open>errors.New\<close>, \<open>fmt.Errorf\<close> without \<open>%w\<close>, or an error of a
  collaborator) given by its text, and \<open>fmt.Errorf\<close> with \<open>%w\<close>, given by its format
  string and the error it wraps.
\<close>

datatype error =
    DeadlineExceeded
  | Canceled
  | ErrMeetingTimeout
  | ErrModeratorTimeout
  | ErrNoAIConfig
  | ErrNoAgents
  | ErrorText string
  | Wrapped string error

text \<open>
  \<open>errors.Is\<close>: the chain of wrapped errors is searched for the target. The wrapper that
  \<open>fmt.Errorf\<close> allocates is never itself a sentinel.
\<close>

fun errors_Is :: "error \<Rightarrow> error \<Rightarrow> bool" where
  "errors_Is (Wrapped f e) target = errors_Is e target"
| "errors_Is e target = (e = target)"

section \<open>The Anthropic adapter: request conversion\<close>

text \<open>
  The contents of a request are pointers to \<open>genai.Content\<close>, and the parts of a content
  are pointers to \<open>genai.Part\<close>; \<open>None\<close> is the nil pointer.
\<close>

record RequestContent =
  rc_role :: string
  rc_parts :: "Part option list"

definition convertRole :: "string \<Rightarrow> string" where
  "convertRole role =
     (if role = ''model'' then ''assistant''
      else if role = ''user'' then ''user''
      else ''user'')"

text \<open>
  One iteration of the loop of \<open>toContentBlocks\<close>: the blocks that the part adds, or the
  error that ends the conversion. \<open>marshal\<close> is \<open>json.Marshal\<close> on the response of a
  function call.
\<close>

fun part_blocks :: "(args_map \<Rightarrow> error + string) \<Rightarrow> Part option \<Rightarrow> error + ContentBlock list" where
  "part_blocks marshal None = Inr []"
| "part_blocks marshal (Some part) =
     (if part_thought part \<and> part_text part \<noteq> []
      then Inr [ContentBlock_zero\<lparr>cb_type := ''thinking'', cb_thinking := part_text part\<rparr>]
      else if part_text part \<noteq> []
      then Inr [ContentBlock_zero\<lparr>cb_type := ''text'', cb_text := part_text part\<rparr>]
      else
        (case part_function_call part of
           Some call \<Rightarrow>
             Inr [ContentBlock_zero\<lparr>cb_type := ''tool_use'', cb_id := fc_id call,
                    cb_name := fc_name call, cb_input := AnyMap (fc_args call)\<rparr>]
         | None \<Rightarrow>
             (case part_function_response part of
                Some response \<Rightarrow>
                  (case marshal (fr_response response) of
                     Inl err \<Rightarrow> Inl (Wrapped ''failed to marshal function response: %w'' err)
                   | Inr resultJSON \<Rightarrow>
                       Inr [ContentBlock_zero\<lparr>cb_type := ''tool_result'',
                              cb_tool_use_id := fr_id response,
                              cb_content := AnyString resultJSON\<rparr>])
              | None \<Rightarrow> Inr [])))"

fun toContentBlocks_loop ::
  "(args_map \<Rightarrow> error + string) \<Rightarrow> ContentBlock list \<Rightarrow> Part option list \<Rightarrow>
   error + ContentBlock list" where
  "toContentBlocks_loop marshal blocks [] = Inr blocks"
| "toContentBlocks_loop marshal blocks (part # parts) =
     (case part_blocks marshal part of
        Inl err \<Rightarrow> Inl err
      | Inr new \<Rightarrow> toContentBlocks_loop marshal (blocks @ new) parts)"

definition toContentBlocks ::
  "(args_map \<Rightarrow> error + string) \<Rightarrow> RequestContent \<Rightarrow> error + ContentBlock list" where
  "toContentBlocks marshal content = toContentBlocks_loop marshal [] (rc_parts content)"

text \<open>
  The loop of \<open>toAnthropicMessages\<close>, with the slice \<open>raw\<close> built so far: a nil content
  and a content without blocks add nothing, and every message added holds a block slice.
\<close>

fun raw_loop ::
  "(args_map \<Rightarrow> error + string) \<Rightarrow> Message list \<Rightarrow> RequestContent option list \<Rightarrow>
   error + Message list" where
  "raw_loop marshal raw [] = Inr raw"
| "raw_loop marshal raw (None # contents) = raw_loop marshal raw contents"
| "raw_loop marshal raw (Some content # contents) =
     (case toContentBlocks marshal content of
        Inl err \<Rightarrow> Inl err
      | Inr blocks \<Rightarrow>
          if length blocks = 0 then raw_loop marshal raw contents
          else raw_loop marshal
                 (raw @ [\<lparr>msg_role = convertRole (rc_role content),
                          msg_content = ContentBlocks blocks\<rparr>])
                 contents)"

text \<open>The list \<open>raw\<close> that reaches the role-merge step, or the error of the conversion.\<close>

definition raw_messages ::
  "(args_map \<Rightarrow> error + string) \<Rightarrow> RequestContent option list \<Rightarrow> error + Message list" where
  "raw_messages marshal contents = raw_loop marshal [] contents"

definition toAnthropicMessages ::
  "(args_map \<Rightarrow> error + string) \<Rightarrow> RequestContent option list \<Rightarrow> error + Message list" where
  "toAnthropicMessages marshal contents =
     (case raw_messages marshal contents of
        Inl err \<Rightarrow> Inl err
      | Inr raw \<Rightarrow> Inr (mergeConsecutiveMessages raw))"

subsection \<open>Reading the blocks of a message list\<close>

text \<open>
  The content blocks that a list of wire messages carries, each with the role of its
  message. They are read off the messages as they stand: a message carries the blocks of
  the block slice it holds, and a message that holds no block slice carries none.
\<close>

fun carried_blocks :: "message_content \<Rightarrow> ContentBlock list" where
  "carried_blocks (ContentBlocks v) = v"
| "carried_blocks (ContentString v) = []"
| "carried_blocks (ContentOther v) = []"

definition role_blocks :: "Message list \<Rightarrow> (string \<times> ContentBlock) list" where
  "role_blocks ms =
     concat (map (\<lambda>m. map (Pair (msg_role m)) (carried_blocks (msg_content m))) ms)"

text \<open>A message that holds a block slice with at least one block.\<close>

definition holds_blocks :: "Message \<Rightarrow> bool" where
  "holds_blocks m =
     (case msg_content m of
        ContentBlocks v \<Rightarrow> v \<noteq> []
      | ContentString v \<Rightarrow> False
      | ContentOther v \<Rightarrow> False)"

text \<open>
  The blocks of the canonical contents of a request, each with the wire role of its
  content, in the order of the contents and of their parts.
\<close>

definition canonical_blocks ::
  "(args_map \<Rightarrow> error + string) \<Rightarrow> RequestContent option list \<Rightarrow> (string \<times> ContentBlock) list" where
  "canonical_blocks marshal contents =
     concat (map (\<lambda>c.
       case c of
         None \<Rightarrow> []
       | Some content \<Rightarrow>
           (case toContentBlocks marshal content of
              Inl err \<Rightarrow> []
            | Inr blocks \<Rightarrow> map (Pair (convertRole (rc_role content))) blocks)) contents)"

subsection \<open>An example request\<close>

text \<open>
  A conversation with a tool call: the user asks; the model thinks, answers and calls a
  tool; the tool's result and the next question follow as two contents, the second under
  a role that is neither \<open>model\<close> nor \<open>user\<close>; and the model's answer comes as two
  contents as well. A nil content, a nil part and a content without parts lie in between.
\<close>

definition example_marshal :: "args_map \<Rightarrow> error + string" where
  \<open>example_marshal response = Inr ''{"price":12}''\<close>

definition example_contents :: "RequestContent option list" where
  "example_contents =
     [Some \<lparr>rc_role = ''user'', rc_parts = [Some (Part_zero\<lparr>part_text := ''quote?''\<rparr>)]\<rparr>,
      None,
      Some \<lparr>rc_role = ''model'',
            rc_parts =
              [Some (Part_zero\<lparr>part_text := ''hm'', part_thought := True\<rparr>),
               None,
               Some (Part_zero\<lparr>part_text := ''one moment''\<rparr>),
               Some (Part_zero\<lparr>part_function_call :=
                 Some \<lparr>fc_id = ''call_1'', fc_name = ''get_quote'',
                       fc_args = [(''symbol'', AnyString ''sh600519'')]\<rparr>\<rparr>)]\<rparr>,
      Some \<lparr>rc_role = ''user'',
            rc_parts =
              [Some (Part_zero\<lparr>part_function_response :=
                 Some \<lparr>fr_id = ''call_1'', fr_name = ''get_quote'',
                       fr_response = [(''price'', AnyNumber 12)]\<rparr>\<rparr>)]\<rparr>,
      Some \<lparr>rc_role = ''model'', rc_parts = []\<rparr>,
      Some \<lparr>rc_role = ''tool'', rc_parts = [Some (Part_zero\<lparr>part_text := ''and now?''\<rparr>)]\<rparr>,
      Some \<lparr>rc_role = ''model'', rc_parts = [Some (Part_zero\<lparr>part_text := ''12.''\<rparr>)]\<rparr>,
      Some \<lparr>rc_role = ''model'', rc_parts = [Some (Part_zero\<lparr>part_text := ''Hold.''\<rparr>)]\<rparr>]"

text \<open>The list that the conversion loop builds from it.\<close>

definition example_raw :: "Message list" where
  \<open>example_raw =
     [\<lparr>msg_role = ''user'',
       msg_content = ContentBlocks
         [ContentBlock_zero\<lparr>cb_type := ''text'', cb_text := ''quote?''\<rparr>]\<rparr>,
      \<lparr>msg_role = ''assistant'',
       msg_content = ContentBlocks
         [ContentBlock_zero\<lparr>cb_type := ''thinking'', cb_thinking := ''hm''\<rparr>,
          ContentBlock_zero\<lparr>cb_type := ''text'', cb_text := ''one moment''\<rparr>,
          ContentBlock_zero\<lparr>cb_type := ''tool_use'', cb_id := ''call_1'',
            cb_name := ''get_quote'',
            cb_input := AnyMap [(''symbol'', AnyString ''sh600519'')]\<rparr>]\<rparr>,
      \<lparr>msg_role = ''user'',
       msg_content = ContentBlocks
         [ContentBlock_zero\<lparr>cb_type := ''tool_result'', cb_tool_use_id := ''call_1'',
            cb_content := AnyString ''{"price":12}''\<rparr>]\<rparr>,
      \<lparr>msg_role = ''user'',
       msg_content = ContentBlocks
         [ContentBlock_zero\<lparr>cb_type := ''text'', cb_text := ''and now?''\<rparr>]\<rparr>,
      \<lparr>msg_role = ''assistant'',
       msg_content = ContentBlocks
         [ContentBlock_zero\<lparr>cb_type := ''text'', cb_text := ''12.''\<rparr>]\<rparr>,
      \<lparr>msg_role = ''assistant'',
       msg_content = ContentBlocks
         [ContentBlock_zero\<lparr>cb_type := ''text'', cb_text := ''Hold.''\<rparr>]\<rparr>]\<close>

section \<open>The Anthropic adapter: stream events\<close>

record Usage =
  u_input_tokens :: "64 word"
  u_output_tokens :: "64 word"

record MessagesResponse =
  mr_id :: string
  mr_type :: string
  mr_role :: string
  mr_content :: "ContentBlock list"
  mr_model :: string
  mr_stop_reason :: string
  mr_stop_sequence :: "string option"
  mr_usage :: "Usage option"

record MessageStartEvent =
  mse_type :: string
  mse_message :: MessagesResponse

record ContentBlockStartEvent =
  cbs_type :: string
  cbs_index :: int
  cbs_content_block :: ContentBlock

record DeltaBlock =
  db_type :: string
  db_text :: string
  db_partial_json :: string
  db_thinking :: string

record ContentBlockDeltaEvent =
  cbd_type :: string
  cbd_index :: int
  cbd_delta :: DeltaBlock

record MessageDelta =
  md_stop_reason :: string
  md_stop_sequence :: "string option"

record DeltaUsage =
  du_output_tokens :: "64 word"

record MessageDeltaEvent =
  mde_type :: string
  mde_delta :: MessageDelta
  mde_usage :: "DeltaUsage option"

record APIError =
  ae_type :: string
  ae_message :: string

record ErrorResponse =
  er_type :: string
  er_error :: APIError

record toolCallBuilder =
  tb_id :: string
  tb_name :: string
  tb_args :: string

text \<open>
  What the adapter takes from Go's standard library and runtime, as parameters:
  \<open>strings.TrimSpace\<close>; \<open>json.Unmarshal\<close> into each target type (\<open>None\<close> when it
  returns an error); \<open>json.Marshal\<close>; and the order in which a \<open>range\<close> loop visits
  the entries of the tool-call map, which the language leaves unspecified.
\<close>

record go_lib =
  TrimSpace :: "string \<Rightarrow> string"
  unmarshal_MessageStartEvent :: "string \<Rightarrow> MessageStartEvent option"
  unmarshal_ContentBlockStartEvent :: "string \<Rightarrow> ContentBlockStartEvent option"
  unmarshal_ContentBlockDeltaEvent :: "string \<Rightarrow> ContentBlockDeltaEvent option"
  unmarshal_MessageDeltaEvent :: "string \<Rightarrow> MessageDeltaEvent option"
  unmarshal_ErrorResponse :: "string \<Rightarrow> ErrorResponse option"
  unmarshal_args :: "string \<Rightarrow> args_map option"
  marshal_any :: "go_any \<Rightarrow> string option"
  range_toolCallsMap :: "(int \<times> toolCallBuilder) list \<Rightarrow> (int \<times> toolCallBuilder) list"

subsection \<open>Response conversion helpers\<close>

definition convertStopReason :: "string \<Rightarrow> FinishReason" where
  "convertStopReason reason =
     (if reason = ''end_turn'' then FinishReasonStop
      else if reason = ''max_tokens'' then FinishReasonMaxTokens
      else if reason = ''stop_sequence'' then FinishReasonStop
      else if reason = ''tool_use'' then FinishReasonStop
      else FinishReasonUnspecified)"

fun parseInputArgs :: "go_lib \<Rightarrow> go_any \<Rightarrow> args_map" where
  "parseInputArgs lib AnyNil = []"
| "parseInputArgs lib (AnyMap v) = v"
| "parseInputArgs lib (AnyString v) =
     (case unmarshal_args lib v of None \<Rightarrow> [] | Some args \<Rightarrow> args)"
| "parseInputArgs lib v =
     (case marshal_any lib v of
        None \<Rightarrow> []
      | Some data \<Rightarrow> (case unmarshal_args lib data of None \<Rightarrow> [] | Some args \<Rightarrow> args))"

subsection \<open>The stream aggregator\<close>

text \<open>The aggregation variables of \<open>processStream\<close>; both maps are keyed by block index.\<close>

record stream_state =
  textContent :: string
  thinkingContent :: string
  toolCallsMap :: "(int \<times> toolCallBuilder) list"
  blockTypes :: "(int \<times> string) list"
  usageMetadata :: "UsageMetadata option"
  finishReason :: FinishReason

definition stream_state_init :: stream_state where
  "stream_state_init =
     \<lparr>textContent = [], thinkingContent = [], toolCallsMap = [], blockTypes = [],
      usageMetadata = None, finishReason = []\<rparr>"

text \<open>
  What the function hands to \<open>yield\<close>, in order: a response or an error. The code
  does not look at what \<open>yield\<close> returns, so the list is what a consumer that takes
  every item receives.
\<close>

type_synonym yielded = "error + LLMResponse"

definition CutPrefix :: "string \<Rightarrow> string \<Rightarrow> string option" where
  "CutPrefix s p = (if take (length p) s = p then Some (drop (length p) s) else None)"

definition handleMessageStart :: "go_lib \<Rightarrow> string \<Rightarrow> stream_state \<Rightarrow> stream_state" where
  "handleMessageStart lib data st =
     (case unmarshal_MessageStartEvent lib data of
        None \<Rightarrow> st
      | Some event \<Rightarrow>
          (case mr_usage (mse_message event) of
             None \<Rightarrow> st
           | Some u \<Rightarrow>
               st\<lparr>usageMetadata := Some
                 \<lparr>um_prompt_token_count = ucast (u_input_tokens u),
                  um_candidates_token_count = 0, um_total_token_count = 0\<rparr>\<rparr>))"

definition handleContentBlockStart :: "go_lib \<Rightarrow> string \<Rightarrow> stream_state \<Rightarrow> stream_state" where
  "handleContentBlockStart lib data st =
     (case unmarshal_ContentBlockStartEvent lib data of
        None \<Rightarrow> st
      | Some event \<Rightarrow>
          (let st1 = st\<lparr>blockTypes :=
                 AList.update (cbs_index event) (cb_type (cbs_content_block event))
                   (blockTypes st)\<rparr>
           in if cb_type (cbs_content_block event) = ''tool_use''
              then st1\<lparr>toolCallsMap :=
                     AList.update (cbs_index event)
                       \<lparr>tb_id = cb_id (cbs_content_block event),
                        tb_name = cb_name (cbs_content_block event), tb_args = []\<rparr>
                       (toolCallsMap st1)\<rparr>
              else st1))"

definition handleContentBlockDelta ::
  "go_lib \<Rightarrow> string \<Rightarrow> stream_state \<Rightarrow> yielded list \<times> stream_state" where
  "handleContentBlockDelta lib data st =
     (case unmarshal_ContentBlockDeltaEvent lib data of
        None \<Rightarrow> ([], st)
      | Some event \<Rightarrow>
          if db_type (cbd_delta event) = ''text_delta'' then
            ([Inr (LLMResponse_zero
                \<lparr>lr_content := Some
                   \<lparr>content_role = ''model'',
                    content_parts = [Part_zero\<lparr>part_text := db_text (cbd_delta event)\<rparr>]\<rparr>,
                 lr_partial := True, lr_turn_complete := False\<rparr>)],
             st\<lparr>textContent := textContent st @ db_text (cbd_delta event)\<rparr>)
          else if db_type (cbd_delta event) = ''thinking_delta'' then
            ([], st\<lparr>thinkingContent := thinkingContent st @ db_thinking (cbd_delta event)\<rparr>)
          else if db_type (cbd_delta event) = ''input_json_delta'' then
            (case map_of (toolCallsMap st) (cbd_index event) of
               Some builder \<Rightarrow>
                 ([], st\<lparr>toolCallsMap :=
                    AList.update (cbd_index event)
                      (builder\<lparr>tb_args := tb_args builder @ db_partial_json (cbd_delta event)\<rparr>)
                      (toolCallsMap st)\<rparr>)
             | None \<Rightarrow> ([], st))
          else ([], st))"

definition handleMessageDelta :: "go_lib \<Rightarrow> string \<Rightarrow> stream_state \<Rightarrow> stream_state" where
  "handleMessageDelta lib data st =
     (case unmarshal_MessageDeltaEvent lib data of
        None \<Rightarrow> st
      | Some event \<Rightarrow>
          (let st1 = (if md_stop_reason (mde_delta event) \<noteq> []
                      then st\<lparr>finishReason := convertStopReason (md_stop_reason (mde_delta event))\<rparr>
                      else st)
           in case (mde_usage event, usageMetadata st1) of
                (Some du, Some um) \<Rightarrow>
                  st1\<lparr>usageMetadata := Some
                    (um\<lparr>um_candidates_token_count := ucast (du_output_tokens du),
                        um_total_token_count :=
                          um_prompt_token_count um + ucast (du_output_tokens du)\<rparr>)\<rparr>
              | _ \<Rightarrow> st1))"

definition handleError :: "go_lib \<Rightarrow> string \<Rightarrow> yielded list" where
  "handleError lib data =
     (case unmarshal_ErrorResponse lib data of
        None \<Rightarrow>
          [Inl (ErrorText (''Anthropic API '' @
             [CHR 0xE6, CHR 0xB5, CHR 0x81, CHR 0xE5, CHR 0xBC, CHR 0x8F, CHR 0xE9, CHR 0x94,
              CHR 0x99, CHR 0xE8, CHR 0xAF, CHR 0xAF] @ '': '' @ data))]
      | Some errResp \<Rightarrow>
          [Inl (ErrorText (''Anthropic API '' @
             [CHR 0xE9, CHR 0x94, CHR 0x99, CHR 0xE8, CHR 0xAF, CHR 0xAF] @ '' ('' @
             ae_type (er_error errResp) @ ''): '' @ ae_message (er_error errResp)))])"

text \<open>
  The \<open>switch\<close> on the current event type. The second component is \<open>None\<close> when the
  function returns (the \<open>error\<close> case), and the state to go on with otherwise.
\<close>

definition dispatch ::
  "go_lib \<Rightarrow> string \<Rightarrow> string \<Rightarrow> stream_state \<Rightarrow> yielded list \<times> stream_state option" where
  "dispatch lib currentEventType data st =
     (if currentEventType = ''message_start'' then ([], Some (handleMessageStart lib data st))
      else if currentEventType = ''content_block_start''
        then ([], Some (handleContentBlockStart lib data st))
      else if currentEventType = ''content_block_delta''
        then (case handleContentBlockDelta lib data st of (ys, st') \<Rightarrow> (ys, Some st'))
      else if currentEventType = ''message_delta''
        then ([], Some (handleMessageDelta lib data st))
      else if currentEventType = ''error'' then (handleError lib data, None)
      else ([], Some st))"

text \<open>
  The scanner loop over the lines that the scanner delivers from the body:
  \<open>currentEventType\<close> is the loop's own variable, and the lines that are neither an
  event line nor a non-empty data line are skipped without resetting it.
\<close>

fun scan_lines ::
  "go_lib \<Rightarrow> string \<Rightarrow> stream_state \<Rightarrow> string list \<Rightarrow> yielded list \<times> stream_state option" where
  "scan_lines lib currentEventType st [] = ([], Some st)"
| "scan_lines lib currentEventType st (line # rest) =
     (case CutPrefix line ''event: '' of
        Some eventType \<Rightarrow> scan_lines lib (TrimSpace lib eventType) st rest
      | None \<Rightarrow>
          (case CutPrefix line ''data: '' of
             None \<Rightarrow> scan_lines lib currentEventType st rest
           | Some data \<Rightarrow>
               if data = [] then scan_lines lib currentEventType st rest
               else (case dispatch lib currentEventType data st of
                       (ys, None) \<Rightarrow> (ys, None)
                     | (ys, Some st') \<Rightarrow>
                         (case scan_lines lib [] st' rest of (zs, r) \<Rightarrow> (ys @ zs, r)))))"

text \<open>The final aggregated response, assembled after the loop.\<close>

definition finalResponse :: "go_lib \<Rightarrow> stream_state \<Rightarrow> LLMResponse" where
  "finalResponse lib st =
     \<lparr>lr_content = Some
        \<lparr>content_role = ''model'',
         content_parts =
           (if thinkingContent st \<noteq> []
            then [Part_zero\<lparr>part_text := thinkingContent st, part_thought := True\<rparr>] else []) @
           (if textContent st \<noteq> [] then [Part_zero\<lparr>part_text := textContent st\<rparr>] else []) @
           map (\<lambda>(index, builder).
                  Part_zero\<lparr>part_function_call := Some
                    \<lparr>fc_id = tb_id builder, fc_name = tb_name builder,
                     fc_args = parseInputArgs lib (AnyString (tb_args builder))\<rparr>\<rparr>)
               (range_toolCallsMap lib (toolCallsMap st))\<rparr>,
      lr_usage_metadata = usageMetadata st,
      lr_finish_reason =
        (if finishReason st = FinishReasonUnspecified then FinishReasonStop
         else finishReason st),
      lr_partial = False,
      lr_turn_complete = True\<rparr>"

definition processStream :: "go_lib \<Rightarrow> string list \<Rightarrow> yielded list" where
  "processStream lib body_lines =
     (case scan_lines lib [] stream_state_init body_lines of
        (ys, None) \<Rightarrow> ys
      | (ys, Some st) \<Rightarrow> ys @ [Inr (finalResponse lib st)])"

subsection \<open>Reading a stream's output\<close>

definition partial_responses :: "yielded list \<Rightarrow> LLMResponse list" where
  "partial_responses ys = concat (map (\<lambda>y. case y of Inr r \<Rightarrow> if lr_partial r then [r] else [] | Inl e \<Rightarrow> []) ys)"

definition final_responses :: "yielded list \<Rightarrow> LLMResponse list" where
  "final_responses ys = concat (map (\<lambda>y. case y of Inr r \<Rightarrow> if lr_partial r then [] else [r] | Inl e \<Rightarrow> []) ys)"

definition stream_errors :: "yielded list \<Rightarrow> error list" where
  "stream_errors ys = concat (map (\<lambda>y. case y of Inr r \<Rightarrow> [] | Inl e \<Rightarrow> [e]) ys)"

text \<open>The visible text of a response: the text of its parts that are not thinking.\<close>

definition visible_text :: "LLMResponse \<Rightarrow> string" where
  "visible_text r =
     (case lr_content r of
        None \<Rightarrow> []
      | Some c \<Rightarrow> concat (map part_text (filter (\<lambda>p. \<not> part_thought p) (content_parts c))))"

text \<open>The three kinds of part of a canonical response.\<close>

definition is_thinking_part :: "Part \<Rightarrow> bool" where
  "is_thinking_part p = part_thought p"

definition is_text_part :: "Part \<Rightarrow> bool" where
  "is_text_part p = (\<not> part_thought p \<and> part_function_call p = None)"

definition is_tool_call_part :: "Part \<Rightarrow> bool" where
  "is_tool_call_part p = (\<not> part_thought p \<and> part_function_call p \<noteq> None)"

text \<open>
  A response's content is normalized when its parts are the thinking parts, then the
  visible-text parts, then the tool-call parts, with at most one thinking part and at
  most one visible-text part.
\<close>

definition normalized_content :: "LLMResponse \<Rightarrow> bool" where
  "normalized_content r =
     (case lr_content r of
        None \<Rightarrow> False
      | Some c \<Rightarrow>
          content_parts c =
            filter is_thinking_part (content_parts c) @
            filter is_text_part (content_parts c) @
            filter is_tool_call_part (content_parts c) \<and>
          length (filter is_thinking_part (content_parts c)) \<le> 1 \<and>
          length (filter is_text_part (content_parts c)) \<le> 1)"

text \<open>The tool calls a response carries, in the order of its parts.\<close>

definition function_calls :: "LLMResponse \<Rightarrow> FunctionCall list" where
  "function_calls r =
     (case lr_content r of
        None \<Rightarrow> []
      | Some c \<Rightarrow>
          concat (map (\<lambda>p. case part_function_call p of None \<Rightarrow> [] | Some fc \<Rightarrow> [fc])
            (content_parts c)))"

subsection \<open>The events of a stream body\<close>

text \<open>
  The pairs (current event type, data) that the scanner loop hands to its \<open>switch\<close>, in
  order: the line-level part of the loop on its own (\<open>trim\<close> is \<open>strings.TrimSpace\<close>).
\<close>

fun sse_frames :: "(string \<Rightarrow> string) \<Rightarrow> string \<Rightarrow> string list \<Rightarrow> (string \<times> string) list" where
  "sse_frames trim currentEventType [] = []"
| "sse_frames trim currentEventType (line # rest) =
     (case CutPrefix line ''event: '' of
        Some eventType \<Rightarrow> sse_frames trim (trim eventType) rest
      | None \<Rightarrow>
          (case CutPrefix line ''data: '' of
             None \<Rightarrow> sse_frames trim currentEventType rest
           | Some data \<Rightarrow>
               if data = [] then sse_frames trim currentEventType rest
               else (currentEventType, data) # sse_frames trim [] rest))"

text \<open>The \<open>switch\<close> applied to a list of such pairs, stopping at the first return.\<close>

fun run_frames ::
  "go_lib \<Rightarrow> stream_state \<Rightarrow> (string \<times> string) list \<Rightarrow> yielded list \<times> stream_state option" where
  "run_frames lib st [] = ([], Some st)"
| "run_frames lib st ((et, data) # rest) =
     (case dispatch lib et data st of
        (ys, None) \<Rightarrow> (ys, None)
      | (ys, Some st') \<Rightarrow> (case run_frames lib st' rest of (zs, r) \<Rightarrow> (ys @ zs, r)))"

text \<open>A \<open>content_block_start\<close> event that opens a \<open>tool_use\<close> block with index \<open>i\<close>.\<close>

definition starts_tool_use :: "go_lib \<Rightarrow> int \<Rightarrow> string \<times> string \<Rightarrow> bool" where
  "starts_tool_use lib i frame =
     (fst frame = ''content_block_start'' \<and>
      (case unmarshal_ContentBlockStartEvent lib (snd frame) of
         None \<Rightarrow> False
       | Some event \<Rightarrow>
           cbs_index event = i \<and> cb_type (cbs_content_block event) = ''tool_use''))"

text \<open>The block indices of the \<open>tool_use\<close> blocks that a list of events opens.\<close>

definition tool_use_indices :: "go_lib \<Rightarrow> (string \<times> string) list \<Rightarrow> int list" where
  "tool_use_indices lib frames =
     concat (map (\<lambda>frame.
       if fst frame = ''content_block_start'' then
         (case unmarshal_ContentBlockStartEvent lib (snd frame) of
            None \<Rightarrow> []
          | Some event \<Rightarrow>
              if cb_type (cbs_content_block event) = ''tool_use'' then [cbs_index event] else [])
       else []) frames)"

text \<open>
  The argument fragments that the \<open>input_json_delta\<close> events of a list of events carry
  for block index \<open>i\<close>, in arrival order.
\<close>

definition json_fragments :: "go_lib \<Rightarrow> int \<Rightarrow> (string \<times> string) list \<Rightarrow> string list" where
  "json_fragments lib i frames =
     concat (map (\<lambda>frame.
       if fst frame = ''content_block_delta'' then
         (case unmarshal_ContentBlockDeltaEvent lib (snd frame) of
            None \<Rightarrow> []
          | Some event \<Rightarrow>
              if db_type (cbd_delta event) = ''input_json_delta'' \<and> cbd_index event = i
              then [db_partial_json (cbd_delta event)] else [])
       else []) frames)"

subsection \<open>An example stream\<close>

text \<open>
  A stream body in which a tool-use block arrives first, with its argument JSON split
  over three fragments, then a text block, then a thinking block. The data lines:
\<close>

definition d_message_start :: string where
  \<open>d_message_start = ''{"type":"message_start","message":{"usage":{"input_tokens":12}}}''\<close>

definition d_start_tool :: string where
  \<open>d_start_tool = ''{"type":"content_block_start","index":0,"content_block":{"type":"tool_use","id":"toolu_1","name":"get_quote"}}''\<close>

definition d_json_1 :: string where
  \<open>d_json_1 = ''{"type":"content_block_delta","index":0,"delta":{"type":"input_json_delta","partial_json":"{'' @ [CHR 0x5C] @ ''"sym"}}''\<close>

definition d_json_2 :: string where
  \<open>d_json_2 = ''{"type":"content_block_delta","index":0,"delta":{"type":"input_json_delta","partial_json":"bol'' @ [CHR 0x5C] @ ''":'' @ [CHR 0x5C] @ ''"s"}}''\<close>

definition d_json_3 :: string where
  \<open>d_json_3 = ''{"type":"content_block_delta","index":0,"delta":{"type":"input_json_delta","partial_json":"h600519'' @ [CHR 0x5C] @ ''"}"}}''\<close>

definition d_start_text :: string where
  \<open>d_start_text = ''{"type":"content_block_start","index":1,"content_block":{"type":"text"}}''\<close>

definition d_text_1 :: string where
  \<open>d_text_1 = ''{"type":"content_block_delta","index":1,"delta":{"type":"text_delta","text":"Hel"}}''\<close>

definition d_text_2 :: string where
  \<open>d_text_2 = ''{"type":"content_block_delta","index":1,"delta":{"type":"text_delta","text":"lo"}}''\<close>

definition d_start_thinking :: string where
  \<open>d_start_thinking = ''{"type":"content_block_start","index":2,"content_block":{"type":"thinking"}}''\<close>

definition d_thinking_1 :: string where
  \<open>d_thinking_1 = ''{"type":"content_block_delta","index":2,"delta":{"type":"thinking_delta","thinking":"hm"}}''\<close>

definition d_message_delta :: string where
  \<open>d_message_delta = ''{"type":"message_delta","delta":{"stop_reason":"tool_use"},"usage":{"output_tokens":7}}''\<close>

definition d_message_stop :: string where
  \<open>d_message_stop = ''{"type":"message_stop"}''\<close>


definition example_body :: "string list" where
  "example_body =
     [''event: message_start'', ''data: '' @ d_message_start, [],
      ''event: content_block_start'', ''data: '' @ d_start_tool, [],
      ''event: content_block_delta'', ''data: '' @ d_json_1, [],
      ''event: content_block_delta'', ''data: '' @ d_json_2, [],
      ''event: content_block_delta'', ''data: '' @ d_json_3, [],
      ''event: content_block_stop'', ''data: {}'', [],
      ''event: content_block_start'', ''data: '' @ d_start_text, [],
      ''event: content_block_delta'', ''data: '' @ d_text_1, [],
      ''event: content_block_delta'', ''data: '' @ d_text_2, [],
      ''event: content_block_start'', ''data: '' @ d_start_thinking, [],
      ''event: content_block_delta'', ''data: '' @ d_thinking_1, [],
      ''event: message_delta'', ''data: '' @ d_message_delta, [],
      ''event: message_stop'', ''data: '' @ d_message_stop, []]"

text \<open>
  The library functions on the strings of the example: \<open>json.Unmarshal\<close> as the table of
  what it decodes them to (an error on every other string), \<open>strings.TrimSpace\<close> on ASCII
  white space, and a \<open>range\<close> that visits the map in insertion order.
\<close>

definition is_ascii_space :: "char \<Rightarrow> bool" where
  "is_ascii_space c = (c \<in> set [CHR 0x09, CHR 0x0A, CHR 0x0B, CHR 0x0C, CHR 0x0D, CHR 0x20])"

definition TrimSpace_ascii :: "string \<Rightarrow> string" where
  "TrimSpace_ascii s = rev (dropWhile is_ascii_space (rev (dropWhile is_ascii_space s)))"

definition MessagesResponse_zero :: MessagesResponse where
  "MessagesResponse_zero =
     \<lparr>mr_id = [], mr_type = [], mr_role = [], mr_content = [], mr_model = [],
      mr_stop_reason = [], mr_stop_sequence = None, mr_usage = None\<rparr>"

definition DeltaBlock_zero :: DeltaBlock where
  "DeltaBlock_zero = \<lparr>db_type = [], db_text = [], db_partial_json = [], db_thinking = []\<rparr>"

definition example_lib :: go_lib where
  \<open>example_lib =
     \<lparr>TrimSpace = TrimSpace_ascii,
      unmarshal_MessageStartEvent = map_of
        [(d_message_start,
          \<lparr>mse_type = ''message_start'',
           mse_message = MessagesResponse_zero
             \<lparr>mr_usage := Some \<lparr>u_input_tokens = 12, u_output_tokens = 0\<rparr>\<rparr>\<rparr>)],
      unmarshal_ContentBlockStartEvent = map_of
        [(d_start_tool,
          \<lparr>cbs_type = ''content_block_start'', cbs_index = 0,
           cbs_content_block = ContentBlock_zero
             \<lparr>cb_type := ''tool_use'', cb_id := ''toolu_1'', cb_name := ''get_quote''\<rparr>\<rparr>),
         (d_start_text,
          \<lparr>cbs_type = ''content_block_start'', cbs_index = 1,
           cbs_content_block = ContentBlock_zero\<lparr>cb_type := ''text''\<rparr>\<rparr>),
         (d_start_thinking,
          \<lparr>cbs_type = ''content_block_start'', cbs_index = 2,
           cbs_content_block = ContentBlock_zero\<lparr>cb_type := ''thinking''\<rparr>\<rparr>)],
      unmarshal_ContentBlockDeltaEvent = map_of
        [(d_json_1,
          \<lparr>cbd_type = ''content_block_delta'', cbd_index = 0,
           cbd_delta = DeltaBlock_zero
             \<lparr>db_type := ''input_json_delta'', db_partial_json := ''{"sym''\<rparr>\<rparr>),
         (d_json_2,
          \<lparr>cbd_type = ''content_block_delta'', cbd_index = 0,
           cbd_delta = DeltaBlock_zero
             \<lparr>db_type := ''input_json_delta'', db_partial_json := ''bol":"s''\<rparr>\<rparr>),
         (d_json_3,
          \<lparr>cbd_type = ''content_block_delta'', cbd_index = 0,
           cbd_delta = DeltaBlock_zero
             \<lparr>db_type := ''input_json_delta'', db_partial_json := ''h600519"}''\<rparr>\<rparr>),
         (d_text_1,
          \<lparr>cbd_type = ''content_block_delta'', cbd_index = 1,
           cbd_delta = DeltaBlock_zero\<lparr>db_type := ''text_delta'', db_text := ''Hel''\<rparr>\<rparr>),
         (d_text_2,
          \<lparr>cbd_type = ''content_block_delta'', cbd_index = 1,
           cbd_delta = DeltaBlock_zero\<lparr>db_type := ''text_delta'', db_text := ''lo''\<rparr>\<rparr>),
         (d_thinking_1,
          \<lparr>cbd_type = ''content_block_delta'', cbd_index = 2,
           cbd_delta = DeltaBlock_zero
             \<lparr>db_type := ''thinking_delta'', db_thinking := ''hm''\<rparr>\<rparr>)],
      unmarshal_MessageDeltaEvent = map_of
        [(d_message_delta,
          \<lparr>mde_type = ''message_delta'',
           mde_delta = \<lparr>md_stop_reason = ''tool_use'', md_stop_sequence = None\<rparr>,
           mde_usage = Some \<lparr>du_output_tokens = 7\<rparr>\<rparr>)],
      unmarshal_ErrorResponse = (\<lambda>data. None),
      unmarshal_args = map_of
        [(''{"symbol":"sh600519"}'', [(''symbol'', AnyString ''sh600519'')])],
      marshal_any = (\<lambda>v. None),
      range_toolCallsMap = (\<lambda>m. m)\<rparr>\<close>

section \<open>The meeting service (package meeting)\<close>

subsection \<open>Data\<close>

text \<open>Of \<open>models.AgentConfig\<close> the service reads the id, the name and the role.\<close>

record AgentConfig =
  ac_id :: string
  ac_name :: string
  ac_role :: string

record ChatRequest =
  req_agents :: "AgentConfig list"
  req_query :: string
  req_reply_content :: string
  req_all_agents :: "AgentConfig list"

record ChatResponse =
  cr_agent_id :: string
  cr_agent_name :: string
  cr_role :: string
  cr_content :: string
  cr_round :: int
  cr_msg_type :: string

record ProgressEvent =
  pe_type :: string
  pe_agent_id :: string
  pe_agent_name :: string
  pe_detail :: string
  pe_content :: string

definition ProgressEvent_zero :: ProgressEvent where
  "ProgressEvent_zero =
     \<lparr>pe_type = [], pe_agent_id = [], pe_agent_name = [], pe_detail = [], pe_content = []\<rparr>"

text \<open>The moderator's types, as the service uses them.\<close>

record DiscussionEntry =
  de_round :: int
  de_agent_id :: string
  de_agent_name :: string
  de_role :: string
  de_content :: string

record Decision =
  dec_selected :: "string list"
  dec_opening :: string
  dec_topic :: string

text \<open>The moderator's display name and role: the UTF-8 bytes of the source's literals.\<close>

definition moderator_name :: string where
  "moderator_name =
     [CHR 0xE5, CHR 0xB0, CHR 0x8F, CHR 0xE9, CHR 0x9F, CHR 0xAD, CHR 0xE8, CHR 0x8F, CHR 0x9C]"

definition moderator_role :: string where
  "moderator_role =
     [CHR 0xE4, CHR 0xBC, CHR 0x9A, CHR 0xE8, CHR 0xAE, CHR 0xAE, CHR 0xE4, CHR 0xB8, CHR 0xBB,
      CHR 0xE6, CHR 0x8C, CHR 0x81]"

definition detail_analyze :: string where
  "detail_analyze =
     [CHR 0xE5, CHR 0x88, CHR 0x86, CHR 0xE6, CHR 0x9E, CHR 0x90, CHR 0xE9, CHR 0x97, CHR 0xAE,
      CHR 0xE9, CHR 0xA2, CHR 0x98, CHR 0xE6, CHR 0x84, CHR 0x8F, CHR 0xE5, CHR 0x9B, CHR 0xBE]"

definition detail_summarize :: string where
  "detail_summarize =
     [CHR 0xE6, CHR 0x80, CHR 0xBB, CHR 0xE7, CHR 0xBB, CHR 0x93, CHR 0xE8, CHR 0xAE, CHR 0xA8,
      CHR 0xE8, CHR 0xAE, CHR 0xBA]"

text \<open>The format string of the moderator-timeout error.\<close>

definition moderator_timeout_format :: string where
  "moderator_timeout_format =
     ''%w: '' @
     [CHR 0xE5, CHR 0xB0, CHR 0x8F, CHR 0xE9, CHR 0x9F, CHR 0xAD, CHR 0xE8, CHR 0x8F, CHR 0x9C,
      CHR 0xE5, CHR 0x88, CHR 0x86, CHR 0xE6, CHR 0x9E, CHR 0x90, CHR 0xE8, CHR 0xB6, CHR 0x85,
      CHR 0xE6, CHR 0x97, CHR 0xB6]"

subsection \<open>One agent's run\<close>

text \<open>
  What \<open>runner.Run\<close> yields: an error, or an event (possibly nil) whose embedded
  response is what the loop reads. The parts of a response are taken to be non-nil
  pointers, as the loop takes them to be.
\<close>

type_synonym run_item = "error + LLMResponse option"

text \<open>
  What one call of \<open>runSingleAgentWithHistory\<close> or \<open>runSingleAgentWithContext\<close> meets:
  the outcome of building the agent, of creating the runner and the session, and the
  events of the run.
\<close>

record agent_world =
  aw_build :: "error option"
  aw_runner :: "error option"
  aw_session :: "error option"
  aw_events :: "run_item list"

text \<open>
  The body of the loop over the parts of one event of \<open>runSingleAgentWithHistory\<close>;
  \<open>progress\<close> tells whether \<open>progressCallback\<close> is non-nil, and the events it is called
  with are collected in order.
\<close>

definition history_part ::
  "AgentConfig \<Rightarrow> bool \<Rightarrow> bool \<Rightarrow> string \<times> ProgressEvent list \<Rightarrow> Part \<Rightarrow>
   string \<times> ProgressEvent list" where
  "history_part cfg progress partial acc part =
     (case acc of (content, events) \<Rightarrow>
        if part_thought part then (content, events)
        else
          (let events1 =
                 (case part_function_call part of
                    Some fc \<Rightarrow>
                      if progress
                      then events @ [ProgressEvent_zero
                             \<lparr>pe_type := ''tool_call'', pe_agent_id := ac_id cfg,
                              pe_agent_name := ac_name cfg, pe_detail := fc_name fc\<rparr>]
                      else events
                  | None \<Rightarrow> events);
               events2 =
                 (case part_function_response part of
                    Some fr \<Rightarrow>
                      if progress
                      then events1 @ [ProgressEvent_zero
                             \<lparr>pe_type := ''tool_result'', pe_agent_id := ac_id cfg,
                              pe_agent_name := ac_name cfg, pe_detail := fr_name fr\<rparr>]
                      else events1
                  | None \<Rightarrow> events1)
           in if part_text part \<noteq> [] then
                if partial then
                  (content @ part_text part,
                   if progress
                   then events2 @ [ProgressEvent_zero
                          \<lparr>pe_type := ''streaming'', pe_agent_id := ac_id cfg,
                           pe_agent_name := ac_name cfg, pe_content := part_text part\<rparr>]
                   else events2)
                else if content = [] then (content @ part_text part, events2)
                else (content, events2)
              else (content, events2)))"

text \<open>The loop over the events of the run: an error ends it and is returned.\<close>

fun history_events ::
  "AgentConfig \<Rightarrow> bool \<Rightarrow> string \<times> ProgressEvent list \<Rightarrow> run_item list \<Rightarrow>
   ProgressEvent list \<times> (error + string)" where
  "history_events cfg progress (content, events) [] = (events, Inr content)"
| "history_events cfg progress (content, events) (Inl err # rest) = (events, Inl err)"
| "history_events cfg progress acc (Inr None # rest) = history_events cfg progress acc rest"
| "history_events cfg progress acc (Inr (Some event) # rest) =
     (case lr_content event of
        None \<Rightarrow> history_events cfg progress acc rest
      | Some c \<Rightarrow>
          history_events cfg progress
            (foldl (history_part cfg progress (lr_partial event)) acc (content_parts c)) rest)"

definition runSingleAgentWithHistory ::
  "agent_world \<Rightarrow> AgentConfig \<Rightarrow> bool \<Rightarrow> ProgressEvent list \<times> (error + string)" where
  "runSingleAgentWithHistory aw cfg progress =
     (case aw_build aw of
        Some err \<Rightarrow> ([], Inl err)
      | None \<Rightarrow>
          (case aw_runner aw of
             Some err \<Rightarrow> ([], Inl err)
           | None \<Rightarrow>
               (case aw_session aw of
                  Some err \<Rightarrow> ([], Inl (Wrapped ''create session error: %w'' err))
                | None \<Rightarrow> history_events cfg progress ([], []) (aw_events aw))))"

text \<open>The panel-mode variant: every text of a part that is not thinking is appended.\<close>

definition context_part :: "string \<Rightarrow> Part \<Rightarrow> string" where
  "context_part content part =
     (if part_thought part then content
      else if part_text part \<noteq> [] then content @ part_text part
      else content)"

fun context_events :: "string \<Rightarrow> run_item list \<Rightarrow> error + string" where
  "context_events content [] = Inr content"
| "context_events content (Inl err # rest) = Inl err"
| "context_events content (Inr None # rest) = context_events content rest"
| "context_events content (Inr (Some event) # rest) =
     (case lr_content event of
        None \<Rightarrow> context_events content rest
      | Some c \<Rightarrow> context_events (foldl context_part content (content_parts c)) rest)"

definition runSingleAgentWithContext :: "agent_world \<Rightarrow> error + string" where
  "runSingleAgentWithContext aw =
     (case aw_build aw of
        Some err \<Rightarrow> Inl err
      | None \<Rightarrow>
          (case aw_runner aw of
             Some err \<Rightarrow> Inl err
           | None \<Rightarrow>
               (case aw_session aw of
                  Some err \<Rightarrow> Inl (Wrapped ''create session error: %w'' err)
                | None \<Rightarrow> context_events [] (aw_events aw))))"

subsection \<open>Helpers of the orchestrator\<close>

text \<open>A later agent with the same id replaces an earlier one in \<open>agentMap\<close>.\<close>

definition filterAgentsOrdered :: "AgentConfig list \<Rightarrow> string list \<Rightarrow> AgentConfig list" where
  "filterAgentsOrdered all ids =
     concat (map (\<lambda>id. case map_of (rev (map (\<lambda>a. (ac_id a, a)) all)) id of
                          Some agent \<Rightarrow> [agent]
                        | None \<Rightarrow> []) ids)"

definition previous_header :: string where
  "previous_header =
     [CHR 0xE3, CHR 0x80, CHR 0x90, CHR 0xE5, CHR 0x89, CHR 0x8D, CHR 0xE9, CHR 0x9D, CHR 0xA2,
      CHR 0xE4, CHR 0xB8, CHR 0x93, CHR 0xE5, CHR 0xAE, CHR 0xB6, CHR 0xE7, CHR 0x9A, CHR 0x84,
      CHR 0xE5, CHR 0x8F, CHR 0x91, CHR 0xE8, CHR 0xA8, CHR 0x80, CHR 0xE3, CHR 0x80, CHR 0x91,
      CHR 0x0A]"

text \<open>One line of the previous discussion: the \<open>Sprintf\<close> of the loop.\<close>

definition previous_line :: "DiscussionEntry \<Rightarrow> string" where
  "previous_line entry =
     ''- '' @ de_agent_name entry @ [CHR 0xEF, CHR 0xBC, CHR 0x88] @ de_role entry @
     [CHR 0xEF, CHR 0xBC, CHR 0x89, CHR 0xEF, CHR 0xBC, CHR 0x9A] @ de_content entry @
     [CHR 0x0A, CHR 0x0A]"

definition buildPreviousContext :: "DiscussionEntry list \<Rightarrow> string" where
  "buildPreviousContext history =
     (if length history = 0 then []
      else previous_header @ concat (map previous_line history))"

subsection \<open>The smart meeting\<close>

text \<open>
  What the service does to its surroundings, in order: a call of the progress callback, a
  call of the response callback, a call of \<open>runSingleAgentWithHistory\<close> (recorded when it
  returns, with the agent, the previous-discussion context it was given and its result),
  a call of \<open>moderator.Summarize\<close> (recorded when it returns, with whether the context it
  was called with was already done, the history it was given and its result), and the
  start of the background task that saves the round to memory.
\<close>

datatype effect =
    Progress ProgressEvent
  | Responded ChatResponse
  | AgentRun AgentConfig string "error + string"
  | SummarizeRun bool "DiscussionEntry list" "error + string"
  | SaveMemory string "DiscussionEntry list"

text \<open>
  What one meeting meets, as parameters: the outcome of \<open>CreateModel\<close>; whether the
  service has a memory manager, whether it returned a stock memory, and the context it
  built; the outcome of \<open>moderator.Analyze\<close>; whether \<open>meetingCtx\<close> is done when step
  \<open>i\<close> starts (the loop's iterations are steps \<open>0, 1, ...\<close> and the summary is the step
  after the last iteration); what the \<open>i\<close>-th agent call meets, given the agent and the
  context handed to it; and the outcome of \<open>moderator.Summarize\<close>, given whether the
  context it is called with is already done and the history.
\<close>

record world =
  w_create_model :: "error option"
  w_memory_manager :: bool
  w_stock_memory :: bool
  w_memory_context :: string
  w_analyze :: "error + Decision"
  w_meeting_done :: "nat \<Rightarrow> bool"
  w_agent :: "nat \<Rightarrow> AgentConfig \<Rightarrow> string \<Rightarrow> agent_world"
  w_summarize :: "bool \<Rightarrow> DiscussionEntry list \<Rightarrow> error + string"

definition emit :: "bool \<Rightarrow> ProgressEvent \<Rightarrow> effect list" where
  "emit progress event = (if progress then [Progress event] else [])"

definition moderator_start :: "string \<Rightarrow> ProgressEvent" where
  "moderator_start detail =
     ProgressEvent_zero\<lparr>pe_type := ''agent_start'', pe_agent_id := ''moderator'',
       pe_agent_name := moderator_name, pe_detail := detail\<rparr>"

definition moderator_done :: ProgressEvent where
  "moderator_done =
     ProgressEvent_zero\<lparr>pe_type := ''agent_done'', pe_agent_id := ''moderator'',
       pe_agent_name := moderator_name\<rparr>"

definition agent_start :: "AgentConfig \<Rightarrow> ProgressEvent" where
  "agent_start cfg =
     ProgressEvent_zero\<lparr>pe_type := ''agent_start'', pe_agent_id := ac_id cfg,
       pe_agent_name := ac_name cfg, pe_detail := ac_role cfg\<rparr>"

definition agent_done :: "AgentConfig \<Rightarrow> ProgressEvent" where
  "agent_done cfg =
     ProgressEvent_zero\<lparr>pe_type := ''agent_done'', pe_agent_id := ac_id cfg,
       pe_agent_name := ac_name cfg\<rparr>"

definition opening_response :: "Decision \<Rightarrow> ChatResponse" where
  "opening_response decision =
     \<lparr>cr_agent_id = ''moderator'', cr_agent_name = moderator_name, cr_role = moderator_role,
      cr_content = dec_opening decision, cr_round = 0, cr_msg_type = ''opening''\<rparr>"

definition opinion_response :: "AgentConfig \<Rightarrow> string \<Rightarrow> ChatResponse" where
  "opinion_response cfg content =
     \<lparr>cr_agent_id = ac_id cfg, cr_agent_name = ac_name cfg, cr_role = ac_role cfg,
      cr_content = content, cr_round = 1, cr_msg_type = ''opinion''\<rparr>"

definition history_entry :: "AgentConfig \<Rightarrow> string \<Rightarrow> DiscussionEntry" where
  "history_entry cfg content =
     \<lparr>de_round = 1, de_agent_id = ac_id cfg, de_agent_name = ac_name cfg,
      de_role = ac_role cfg, de_content = content\<rparr>"

definition summary_response :: "string \<Rightarrow> ChatResponse" where
  "summary_response summary =
     \<lparr>cr_agent_id = ''moderator'', cr_agent_name = moderator_name, cr_role = moderator_role,
      cr_content = summary, cr_round = 2, cr_msg_type = ''summary''\<rparr>"

text \<open>The variables the rounds share: the responses, the history and the effects so far.\<close>

record meeting_state =
  ms_responses :: "ChatResponse list"
  ms_history :: "DiscussionEntry list"
  ms_trace :: "effect list"

text \<open>
  Round 1, the loop over the selected agents from iteration \<open>i\<close> on. The result is the
  state the loop ends in and whether it ended by finding \<open>meetingCtx\<close> done.
\<close>

fun agents_loop ::
  "world \<Rightarrow> string \<Rightarrow> bool \<Rightarrow> bool \<Rightarrow> nat \<Rightarrow> AgentConfig list \<Rightarrow> meeting_state \<Rightarrow>
   meeting_state \<times> bool" where
  "agents_loop w memoryContext respCallback progress i [] st = (st, False)"
| "agents_loop w memoryContext respCallback progress i (agentCfg # rest) st =
     (if w_meeting_done w i then (st, True)
      else
        (let previousContext =
               (if memoryContext \<noteq> []
                then memoryContext @ [CHR 0x0A] @ buildPreviousContext (ms_history st)
                else buildPreviousContext (ms_history st))
         in case runSingleAgentWithHistory (w_agent w i agentCfg previousContext) agentCfg progress of
              (events, Inl err) \<Rightarrow>
                agents_loop w memoryContext respCallback progress (Suc i) rest
                  (st\<lparr>ms_trace := ms_trace st @ emit progress (agent_start agentCfg) @
                      map Progress events @ [AgentRun agentCfg previousContext (Inl err)] @
                      emit progress (agent_done agentCfg)\<rparr>)
            | (events, Inr content) \<Rightarrow>
                agents_loop w memoryContext respCallback progress (Suc i) rest
                  \<lparr>ms_responses = ms_responses st @ [opinion_response agentCfg content],
                   ms_history = ms_history st @ [history_entry agentCfg content],
                   ms_trace = ms_trace st @ emit progress (agent_start agentCfg) @
                      map Progress events @ [AgentRun agentCfg previousContext (Inr content)] @
                      emit progress (agent_done agentCfg) @
                      (if respCallback then [Responded (opinion_response agentCfg content)]
                       else [])\<rparr>))"

text \<open>The final round: the summary, and the start of the memory task.\<close>

definition final_round ::
  "world \<Rightarrow> bool \<Rightarrow> bool \<Rightarrow> bool \<Rightarrow> meeting_state \<Rightarrow>
   ChatResponse list \<times> error option \<times> effect list" where
  "final_round w respCallback progress summaryCtxDone st =
     (case w_summarize w summaryCtxDone (ms_history st) of
        Inl err \<Rightarrow>
          (ms_responses st, None,
           ms_trace st @ emit progress (moderator_start detail_summarize) @
           [SummarizeRun summaryCtxDone (ms_history st) (Inl err)] @
           emit progress moderator_done)
      | Inr summary \<Rightarrow>
          ((if summary \<noteq> [] then ms_responses st @ [summary_response summary]
            else ms_responses st),
           None,
           ms_trace st @ emit progress (moderator_start detail_summarize) @
           [SummarizeRun summaryCtxDone (ms_history st) (Inr summary)] @
           emit progress moderator_done @
           (if summary \<noteq> [] \<and> respCallback then [Responded (summary_response summary)] else []) @
           (if w_memory_manager w \<and> w_stock_memory w \<and> summary \<noteq> []
            then [SaveMemory summary (ms_history st)] else [])))"

text \<open>The state after the opening: the opening is the first response, and is called back.\<close>

definition opening_state :: "Decision \<Rightarrow> bool \<Rightarrow> bool \<Rightarrow> meeting_state" where
  "opening_state decision respCallback progress =
     \<lparr>ms_responses = [opening_response decision],
      ms_history = [],
      ms_trace =
        emit progress (moderator_start detail_analyze) @ emit progress moderator_done @
        (if respCallback then [Responded (opening_response decision)] else [])\<rparr>"

text \<open>The memory context: empty without a memory manager.\<close>

definition memoryContext_of :: "world \<Rightarrow> string" where
  "memoryContext_of w = (if w_memory_manager w then w_memory_context w else [])"

text \<open>
  \<open>RunSmartMeetingWithCallback\<close>: the responses and the error it returns, and its
  effects. \<open>aiConfig\<close> is \<open>None\<close> for a nil pointer; \<open>respCallback\<close> and \<open>progress\<close>
  tell whether the two callbacks are non-nil. (Logging and the choice of the memory
  manager's own model touch none of these.)
\<close>

definition RunSmartMeetingWithCallback ::
  "world \<Rightarrow> 'c option \<Rightarrow> ChatRequest \<Rightarrow> bool \<Rightarrow> bool \<Rightarrow>
   ChatResponse list \<times> error option \<times> effect list" where
  "RunSmartMeetingWithCallback w aiConfig req respCallback progress =
     (case aiConfig of
        None \<Rightarrow> ([], Some ErrNoAIConfig, [])
      | Some config \<Rightarrow>
          if length (req_all_agents req) = 0 then ([], Some ErrNoAgents, [])
          else
            (case w_create_model w of
               Some err \<Rightarrow> ([], Some (Wrapped ''create model error: %w'' err), [])
             | None \<Rightarrow>
                 (case w_analyze w of
                    Inl err \<Rightarrow>
                      ([],
                       Some (if errors_Is err DeadlineExceeded
                             then Wrapped moderator_timeout_format ErrModeratorTimeout
                             else Wrapped ''moderator analyze error: %w'' err),
                       emit progress (moderator_start detail_analyze) @
                       emit progress moderator_done)
                  | Inr decision \<Rightarrow>
                      (let st0 = opening_state decision respCallback progress;
                           selectedAgents =
                             filterAgentsOrdered (req_all_agents req) (dec_selected decision)
                       in if length selectedAgents = 0
                          then (ms_responses st0, None, ms_trace st0)
                          else
                            (case agents_loop w (memoryContext_of w) respCallback progress 0
                                    selectedAgents st0 of
                               (st, True) \<Rightarrow> (ms_responses st, Some ErrMeetingTimeout, ms_trace st)
                             | (st, False) \<Rightarrow>
                                 final_round w respCallback progress
                                   (w_meeting_done w (length selectedAgents)) st)))))"

definition RunSmartMeeting ::
  "world \<Rightarrow> 'c option \<Rightarrow> ChatRequest \<Rightarrow> ChatResponse list \<times> error option \<times> effect list" where
  "RunSmartMeeting w aiConfig req = RunSmartMeetingWithCallback w aiConfig req False False"

subsection \<open>The panel\<close>

text \<open>
  What a panel call meets: the outcome of \<open>CreateModel\<close>; what the goroutine of the agent
  at position \<open>i\<close> meets; and the positions of the agents in the order in which their
  goroutines finish, which is the order of the appends under the mutex.
\<close>

record panel_world =
  pw_create_model :: "error option"
  pw_agent :: "nat \<Rightarrow> AgentConfig \<Rightarrow> agent_world"
  pw_finish_order :: "nat list"

definition panel_response :: "AgentConfig \<Rightarrow> string \<Rightarrow> ChatResponse" where
  "panel_response cfg content =
     \<lparr>cr_agent_id = ac_id cfg, cr_agent_name = ac_name cfg, cr_role = ac_role cfg,
      cr_content = content, cr_round = 0, cr_msg_type = []\<rparr>"

definition runAgentsParallel :: "panel_world \<Rightarrow> ChatRequest \<Rightarrow> ChatResponse list \<times> error option" where
  "runAgentsParallel pw req =
     (concat (map (\<lambda>i.
        if i < length (req_agents req) then
          (case runSingleAgentWithContext (pw_agent pw i (req_agents req ! i)) of
             Inl err \<Rightarrow> []
           | Inr content \<Rightarrow> [panel_response (req_agents req ! i) content])
        else []) (pw_finish_order pw)),
      None)"

definition SendMessage :: "panel_world \<Rightarrow> ChatRequest \<Rightarrow> ChatResponse list \<times> error option" where
  "SendMessage pw req =
     (case pw_create_model pw of
        Some err \<Rightarrow> ([], Some err)
      | None \<Rightarrow> runAgentsParallel pw req)"

subsection \<open>Reading a meeting's effects\<close>

text \<open>The agent calls of a trace: agent, context handed in, result.\<close>

definition agent_runs :: "effect list \<Rightarrow> (AgentConfig \<times> string \<times> (error + string)) list" where
  "agent_runs trace =
     concat (map (\<lambda>e. case e of AgentRun cfg ctx r \<Rightarrow> [(cfg, ctx, r)] | _ \<Rightarrow> []) trace)"

text \<open>
  The calls of \<open>moderator.Summarize\<close> of a trace (context already done, history, result),
  and the memory tasks it starts (summary, history).
\<close>

definition summary_runs :: "effect list \<Rightarrow> (bool \<times> DiscussionEntry list \<times> (error + string)) list" where
  "summary_runs trace =
     concat (map (\<lambda>e. case e of SummarizeRun d h r \<Rightarrow> [(d, h, r)] | _ \<Rightarrow> []) trace)"

definition memory_saves :: "effect list \<Rightarrow> (string \<times> DiscussionEntry list) list" where
  "memory_saves trace =
     concat (map (\<lambda>e. case e of SaveMemory s h \<Rightarrow> [(s, h)] | _ \<Rightarrow> []) trace)"

text \<open>The opinions that the successful calls among a list of agent calls give.\<close>

definition opinions_of :: "(AgentConfig \<times> string \<times> (error + string)) list \<Rightarrow> ChatResponse list" where
  "opinions_of runs =
     concat (map (\<lambda>(cfg, ctx, r). case r of Inr content \<Rightarrow> [opinion_response cfg content]
                                   | Inl err \<Rightarrow> []) runs)"

text \<open>
  The summary responses that a list of calls of \<open>moderator.Summarize\<close> gives: one for
  every call that returned a non-empty summary.
\<close>

definition summaries_of :: "(bool \<times> DiscussionEntry list \<times> (error + string)) list \<Rightarrow> ChatResponse list" where
  "summaries_of runs =
     concat (map (\<lambda>(d, h, r). case r of Inr summary \<Rightarrow>
                                      if summary \<noteq> [] then [summary_response summary] else []
                                 | Inl err \<Rightarrow> []) runs)"

text \<open>\<open>find_after c s\<close>: what follows the first occurrence of \<open>c\<close> in \<open>s\<close>, if there is one.\<close>

fun find_after :: "string \<Rightarrow> string \<Rightarrow> string option" where
  "find_after c [] = (if c = [] then Some [] else None)"
| "find_after c (x # xs) =
     (if take (length c) (x # xs) = c then Some (drop (length c) (x # xs))
      else find_after c xs)"

text \<open>
  \<open>contains_in_order cs s\<close>: the strings \<open>cs\<close> occur in \<open>s\<close> verbatim, one after the
  other without overlap, in the order of the list.
\<close>

fun contains_in_order :: "string list \<Rightarrow> string \<Rightarrow> bool" where
  "contains_in_order [] s = True"
| "contains_in_order (c # cs) s =
     (case find_after c s of None \<Rightarrow> False | Some rest \<Rightarrow> contains_in_order cs rest)"

subsection \<open>Example meetings\<close>

definition expert_1 :: AgentConfig where
  "expert_1 = \<lparr>ac_id = ''a1'', ac_name = ''Ann'', ac_role = ''fundamentals''\<rparr>"

definition expert_2 :: AgentConfig where
  "expert_2 = \<lparr>ac_id = ''a2'', ac_name = ''Bo'', ac_role = ''technicals''\<rparr>"

definition expert_3 :: AgentConfig where
  "expert_3 = \<lparr>ac_id = ''a3'', ac_name = ''Cy'', ac_role = ''capital flow''\<rparr>"

definition expert_4 :: AgentConfig where
  "expert_4 = \<lparr>ac_id = ''a4'', ac_name = ''Di'', ac_role = ''policy''\<rparr>"

definition expert_5 :: AgentConfig where
  "expert_5 = \<lparr>ac_id = ''a5'', ac_name = ''Ed'', ac_role = ''risk''\<rparr>"

text \<open>An event that carries one text part, partial or not.\<close>

definition text_event :: "bool \<Rightarrow> string \<Rightarrow> run_item" where
  "text_event partial t =
     Inr (Some (LLMResponse_zero
       \<lparr>lr_content := Some \<lparr>content_role = ''model'',
                             content_parts = [Part_zero\<lparr>part_text := t\<rparr>]\<rparr>,
        lr_partial := partial, lr_turn_complete := \<not> partial\<rparr>))"

text \<open>
  A streaming run that goes well: two partial fragments, then the final response with
  the whole text. And a run that ends on its deadline.
\<close>

definition speaking :: "string \<Rightarrow> agent_world" where
  "speaking t =
     \<lparr>aw_build = None, aw_runner = None, aw_session = None,
      aw_events = [text_event True ''view of '', text_event True t,
                   text_event False (''view of '' @ t)]\<rparr>"

definition timing_out :: agent_world where
  "timing_out =
     \<lparr>aw_build = None, aw_runner = None, aw_session = None,
      aw_events = [Inl DeadlineExceeded]\<rparr>"

text \<open>The runs on which the fallback of \<open>runSingleAgentWithHistory\<close> goes wrong.\<close>

definition final_before_partial :: agent_world where
  "final_before_partial =
     \<lparr>aw_build = None, aw_runner = None, aw_session = None,
      aw_events = [text_event False ''A'', text_event True ''B'']\<rparr>"

definition final_with_two_texts :: agent_world where
  "final_with_two_texts =
     \<lparr>aw_build = None, aw_runner = None, aw_session = None,
      aw_events =
        [Inr (Some (LLMResponse_zero
           \<lparr>lr_content := Some \<lparr>content_role = ''model'',
                content_parts = [Part_zero\<lparr>part_text := ''A''\<rparr>, Part_zero\<lparr>part_text := ''B''\<rparr>]\<rparr>,
            lr_turn_complete := True\<rparr>))]\<rparr>"

text \<open>Scenario B: three agents are selected and the second one's call times out.\<close>

definition request_3 :: ChatRequest where
  "request_3 =
     \<lparr>req_agents = [], req_query = ''outlook?'', req_reply_content = [],
      req_all_agents = [expert_1, expert_2, expert_3]\<rparr>"

definition scenario_B :: world where
  "scenario_B =
     \<lparr>w_create_model = None, w_memory_manager = False, w_stock_memory = False,
      w_memory_context = [],
      w_analyze = Inr \<lparr>dec_selected = [''a1'', ''a2'', ''a3''], dec_opening = ''Welcome'',
                       dec_topic = ''outlook''\<rparr>,
      w_meeting_done = (\<lambda>i. False),
      w_agent = (\<lambda>i cfg ctx. if i = 1 then timing_out else speaking (ac_id cfg)),
      w_summarize = (\<lambda>done history. Inr ''Summary'')\<rparr>"

text \<open>Scenario C: the moderator's analysis runs into its deadline.\<close>

definition scenario_C :: world where
  "scenario_C = scenario_B\<lparr>w_analyze := Inl (Wrapped ''generate content: %w'' DeadlineExceeded)\<rparr>"

text \<open>
  Scenario E: five agents are selected and the meeting's deadline expires while the
  second one speaks, so that the third turn finds it expired.
\<close>

definition request_5 :: ChatRequest where
  "request_5 =
     \<lparr>req_agents = [], req_query = ''outlook?'', req_reply_content = [],
      req_all_agents = [expert_1, expert_2, expert_3, expert_4, expert_5]\<rparr>"

definition scenario_E :: world where
  "scenario_E =
     \<lparr>w_create_model = None, w_memory_manager = False, w_stock_memory = False,
      w_memory_context = [],
      w_analyze = Inr \<lparr>dec_selected = [''a1'', ''a2'', ''a3'', ''a4'', ''a5''],
                       dec_opening = ''Welcome'', dec_topic = ''outlook''\<rparr>,
      w_meeting_done = (\<lambda>i. 2 \<le> i),
      w_agent = (\<lambda>i cfg ctx. speaking (ac_id cfg)),
      w_summarize = (\<lambda>done history. Inr ''Summary'')\<rparr>"

text \<open>
  Five agents are selected and every call runs into a deadline: three into the agent's
  own, the fourth into the meeting's, so that the fifth turn finds the meeting's deadline
  expired.
\<close>

definition five_timeouts :: world where
  "five_timeouts =
     scenario_E\<lparr>w_meeting_done := (\<lambda>i. 4 \<le> i), w_agent := (\<lambda>i cfg ctx. timing_out)\<rparr>"

text \<open>
  One agent is selected; the meeting's deadline expires during its call, which ends with
  the deadline error, and the summary, called with a context that is already done, ends
  with the deadline error too.
\<close>

definition request_1 :: ChatRequest where
  "request_1 =
     \<lparr>req_agents = [expert_1], req_query = ''outlook?'', req_reply_content = [],
      req_all_agents = [expert_1]\<rparr>"

definition deadline_in_last_turn :: world where
  "deadline_in_last_turn =
     \<lparr>w_create_model = None, w_memory_manager = False, w_stock_memory = False,
      w_memory_context = [],
      w_analyze = Inr \<lparr>dec_selected = [''a1''], dec_opening = ''Welcome'',
                       dec_topic = ''outlook''\<rparr>,
      w_meeting_done = (\<lambda>i. 1 \<le> i),
      w_agent = (\<lambda>i cfg ctx. timing_out),
      w_summarize = (\<lambda>done history. if done then Inl DeadlineExceeded else Inr ''Summary'')\<rparr>"

text \<open>A panel of one agent whose call times out.\<close>

definition failing_panel :: panel_world where
  "failing_panel =
     \<lparr>pw_create_model = None, pw_agent = (\<lambda>i cfg. timing_out), pw_finish_order = [0]\<rparr>"

subsection \<open>Reading an agent's run\<close>

text \<open>
  The texts that the loop of \<open>runSingleAgentWithHistory\<close> looks at, in order: for every
  part that is not thinking and has a non-empty text, whether its event is partial, and
  the text.
\<close>

definition part_texts :: "bool \<Rightarrow> Part \<Rightarrow> (bool \<times> string) list" where
  "part_texts partial part =
     (if \<not> part_thought part \<and> part_text part \<noteq> [] then [(partial, part_text part)] else [])"

definition text_parts :: "run_item list \<Rightarrow> (bool \<times> string) list" where
  "text_parts items =
     concat (map (\<lambda>item.
       case item of
         Inl err \<Rightarrow> []
       | Inr None \<Rightarrow> []
       | Inr (Some event) \<Rightarrow>
           (case lr_content event of
              None \<Rightarrow> []
            | Some c \<Rightarrow> concat (map (part_texts (lr_partial event)) (content_parts c)))) items)"

text \<open>What the loop does to \<open>content\<close> for one such text.\<close>

definition absorb :: "string \<Rightarrow> bool \<times> string \<Rightarrow> string" where
  "absorb content pt =
     (if fst pt then content @ snd pt else if content = [] then content @ snd pt else content)"

section \<open>Invariants used in the proofs\<close>

text \<open>What a run of the scanner loop from state \<open>st\<close> yields: partial responses only, then at most
  one error; the text buffer grows by exactly the text of the partial responses.\<close>

definition step_ok :: "stream_state \<Rightarrow> yielded list \<Rightarrow> stream_state option \<Rightarrow> bool" where
  "step_ok st ys r =
     (\<exists>ps. list_all lr_partial ps \<and>
        (case r of
           Some st' \<Rightarrow>
             ys = map Inr ps \<and> textContent st' = textContent st @ concat (map visible_text ps)
         | None \<Rightarrow> (\<exists>e. ys = map Inr ps @ [Inl e])))"

text \<open>The history entries and the contents that the successful agent calls give.\<close>

definition entries_of :: "(AgentConfig \<times> string \<times> (error + string)) list \<Rightarrow> DiscussionEntry list" where
  "entries_of runs =
     concat (map (\<lambda>(cfg, ctx, r). case r of Inr content \<Rightarrow> [history_entry cfg content]
                                   | Inl err \<Rightarrow> []) runs)"

definition contents_of :: "(AgentConfig \<times> string \<times> (error + string)) list \<Rightarrow> string list" where
  "contents_of runs =
     concat (map (\<lambda>(cfg, ctx, r). case r of Inr content \<Rightarrow> [content] | Inl err \<Rightarrow> []) runs)"

text \<open>The context that the loop hands to the next agent, from the history so far.\<close>

definition loop_context :: "string \<Rightarrow> DiscussionEntry list \<Rightarrow> string" where
  "loop_context memoryContext history =
     (if memoryContext \<noteq> [] then memoryContext @ [CHR 0x0A] @ buildPreviousContext history
      else buildPreviousContext history)"

text \<open>
  What the final round adds to the responses: the summary, when \<open>Summarize\<close> returns a
  non-empty one.
\<close>

definition summary_part :: "world \<Rightarrow> bool \<Rightarrow> DiscussionEntry list \<Rightarrow> ChatResponse list" where
  "summary_part w summaryCtxDone history =
     (case w_summarize w summaryCtxDone history of
        Inl err \<Rightarrow> []
      | Inr summary \<Rightarrow> if summary \<noteq> [] then [summary_response summary] else [])"

section \<open>The role-merge step loses and reorders nothing\<close>

lemma role_blocks_Nil: "role_blocks [] = []"
  by (simp add: role_blocks_def)

lemma role_blocks_append: "role_blocks (xs @ ys) = role_blocks xs @ role_blocks ys"
  by (simp add: role_blocks_def)

lemma holds_blocks_content:
  "holds_blocks m \<Longrightarrow> \<exists>v. msg_content m = ContentBlocks v \<and> v \<noteq> []"
  by (cases "msg_content m") (simp_all add: holds_blocks_def)

text \<open>One iteration of the loop, on messages that hold block slices.\<close>

lemma merge_step_blocks:
  assumes "list_all holds_blocks merged" and "holds_blocks msg"
  shows "role_blocks (merge_step merged msg) = role_blocks merged @ role_blocks [msg] \<and>
         list_all holds_blocks (merge_step merged msg)"
proof (cases "merged \<noteq> [] \<and> msg_role (last merged) = msg_role msg")
  case True
  then obtain bs l where m: "merged = bs @ [l]" and r: "msg_role l = msg_role msg"
    by (metis append_butlast_last_id last_snoc)
  from assms(1) m have "holds_blocks l" by simp
  then obtain v where v: "msg_content l = ContentBlocks v" "v \<noteq> []"
    using holds_blocks_content by blast
  from assms(2) obtain u where u: "msg_content msg = ContentBlocks u" "u \<noteq> []"
    using holds_blocks_content by blast
  have s: "merge_step (bs @ [l]) msg = bs @ [l\<lparr>msg_content := ContentBlocks (v @ u)\<rparr>]"
    by (simp add: merge_step_def r v u)
  have "holds_blocks (l\<lparr>msg_content := ContentBlocks (v @ u)\<rparr>)"
    by (simp add: holds_blocks_def v)
  with assms(1) have "list_all holds_blocks (merge_step merged msg)"
    unfolding m s by simp
  moreover have "role_blocks (merge_step merged msg) = role_blocks merged @ role_blocks [msg]"
    unfolding m s by (simp add: r v u role_blocks_def)
  ultimately show ?thesis by simp
next
  case False
  then have "merge_step merged msg = merged @ [msg]"
    by (auto simp: merge_step_def)
  with assms show ?thesis
    by (simp add: role_blocks_append)
qed

lemma foldl_merge_step_blocks:
  "list_all holds_blocks acc \<Longrightarrow> list_all holds_blocks ms \<Longrightarrow>
   role_blocks (foldl merge_step acc ms) = role_blocks acc @ role_blocks ms \<and>
   list_all holds_blocks (foldl merge_step acc ms)"
proof (induction ms arbitrary: acc)
  case Nil
  then show ?case by (simp add: role_blocks_Nil)
next
  case (Cons m ms)
  from Cons.prems have m: "holds_blocks m" and ms: "list_all holds_blocks ms" by simp_all
  from merge_step_blocks [OF Cons.prems(1) m]
  have step: "role_blocks (merge_step acc m) = role_blocks acc @ role_blocks [m]"
    and inv: "list_all holds_blocks (merge_step acc m)"
    by simp_all
  have "role_blocks (m # ms) = role_blocks [m] @ role_blocks ms"
    by (simp add: role_blocks_def)
  with Cons.IH [OF inv ms] step show ?case by simp
qed

lemma distinct_adj_snoc:
  "distinct_adj (xs @ [y]) \<longleftrightarrow> distinct_adj xs \<and> (xs = [] \<or> last xs \<noteq> y)"
  by (induction xs rule: induct_list012) auto

lemma roles_merge_step:
  "distinct_adj (map msg_role merged) \<Longrightarrow> distinct_adj (map msg_role (merge_step merged msg))"
proof (cases "merged \<noteq> [] \<and> msg_role (last merged) = msg_role msg")
  case True
  assume d: "distinct_adj (map msg_role merged)"
  from True obtain bs l where m: "merged = bs @ [l]"
    by (metis append_butlast_last_id)
  have "map msg_role (merge_step merged msg) = map msg_role merged"
    using True by (simp add: merge_step_def m)
  with d show ?thesis by simp
next
  case False
  assume d: "distinct_adj (map msg_role merged)"
  from False have "merge_step merged msg = merged @ [msg]"
    by (auto simp: merge_step_def)
  moreover from False have "merged = [] \<or> last (map msg_role merged) \<noteq> msg_role msg"
    by (auto simp: last_map)
  ultimately show ?thesis
    using d by (auto simp: distinct_adj_snoc)
qed

lemma roles_foldl:
  "distinct_adj (map msg_role acc) \<Longrightarrow> distinct_adj (map msg_role (foldl merge_step acc ms))"
  by (induction ms arbitrary: acc) (simp_all add: roles_merge_step)

text \<open>The merge of a list of messages that hold block slices.\<close>

lemma mergeConsecutiveMessages_blocks:
  assumes "list_all holds_blocks ms"
  shows "role_blocks (mergeConsecutiveMessages ms) = role_blocks ms \<and>
         list_all holds_blocks (mergeConsecutiveMessages ms) \<and>
         distinct_adj (map msg_role (mergeConsecutiveMessages ms))"
proof -
  from foldl_merge_step_blocks [of "[]" ms] assms
  have "role_blocks (foldl merge_step [] ms) = role_blocks ms"
    and "list_all holds_blocks (foldl merge_step [] ms)"
    by (simp_all add: role_blocks_Nil)
  moreover have "distinct_adj (map msg_role (foldl merge_step [] ms))"
    by (rule roles_foldl) simp
  moreover have "length ms \<le> 1 \<Longrightarrow> distinct_adj (map msg_role ms)"
    by (cases ms) auto
  ultimately show ?thesis
    using assms by (simp add: mergeConsecutiveMessages_def)
qed

text \<open>The list that the conversion loop builds.\<close>

lemma canonical_blocks_Cons:
  "canonical_blocks marshal (None # cs) = canonical_blocks marshal cs"
  "canonical_blocks marshal (Some c # cs) =
     (case toContentBlocks marshal c of
        Inl err \<Rightarrow> []
      | Inr blocks \<Rightarrow> map (Pair (convertRole (rc_role c))) blocks) @ canonical_blocks marshal cs"
  by (simp_all add: canonical_blocks_def)

lemma raw_loop_blocks:
  "raw_loop marshal acc cs = Inr raw \<Longrightarrow> list_all holds_blocks acc \<Longrightarrow>
   list_all holds_blocks raw \<and> role_blocks raw = role_blocks acc @ canonical_blocks marshal cs"
proof (induction marshal acc cs rule: raw_loop.induct)
  case (1 marshal acc)
  then show ?case by (simp add: canonical_blocks_def)
next
  case (2 marshal acc cs)
  then show ?case by (simp add: canonical_blocks_Cons)
next
  case (3 marshal acc c cs)
  show ?case
  proof (cases "toContentBlocks marshal c")
    case (Inl err)
    with "3.prems" show ?thesis by simp
  next
    case (Inr blocks)
    show ?thesis
    proof (cases "blocks = []")
      case True
      with "3.prems" Inr have "raw_loop marshal acc cs = Inr raw" by simp
      from "3.IH"(1) [OF Inr _ this "3.prems"(2)] True Inr show ?thesis
        by (simp add: canonical_blocks_Cons)
    next
      case False
      let ?m = "\<lparr>msg_role = convertRole (rc_role c), msg_content = ContentBlocks blocks\<rparr>"
      from "3.prems" Inr False have run: "raw_loop marshal (acc @ [?m]) cs = Inr raw" by simp
      from False have "holds_blocks ?m"
        by (simp add: holds_blocks_def)
      with "3.prems"(2) have inv: "list_all holds_blocks (acc @ [?m])" by simp
      have "role_blocks (acc @ [?m]) =
          role_blocks acc @ map (Pair (convertRole (rc_role c))) blocks"
        by (simp add: role_blocks_def)
      with "3.IH"(2) [OF Inr _ run inv] False Inr show ?thesis
        by (simp add: canonical_blocks_Cons)
    qed
  qed
qed

text \<open>
  C3. Let \<open>raw\<close> be the list that \<open>toAnthropicMessages\<close> has built from the canonical
  contents of a request and hands to \<open>mergeConsecutiveMessages\<close>. Every message of \<open>raw\<close>
  holds a block slice with at least one block, and these are the blocks of the canonical
  contents in their order. The merged list, which \<open>toAnthropicMessages\<close> returns, carries
  exactly the blocks of \<open>raw\<close>, each under the role it had and in the order it had:
  nothing is dropped, nothing duplicated, nothing reordered. Its messages hold block
  slices with at least one block too, and no two neighbours among them share a role, so
  that each of them holds the blocks of one whole run of same-role messages of \<open>raw\<close> in
  their order. The blocks are read off the lists by \<open>carried_blocks\<close>, not by the
  \<open>toBlockSlice\<close> of the merge.
\<close>

theorem mergeConsecutiveMessages_preserves_blocks:
  assumes "raw_messages marshal contents = Inr raw"
  shows "toAnthropicMessages marshal contents = Inr (mergeConsecutiveMessages raw) \<and>
         list_all holds_blocks raw \<and>
         role_blocks raw = canonical_blocks marshal contents \<and>
         role_blocks (mergeConsecutiveMessages raw) = role_blocks raw \<and>
         list_all holds_blocks (mergeConsecutiveMessages raw) \<and>
         distinct_adj (map msg_role (mergeConsecutiveMessages raw))"
proof -
  from assms have "raw_loop marshal [] contents = Inr raw"
    by (simp add: raw_messages_def)
  from raw_loop_blocks [OF this]
  have inv: "list_all holds_blocks raw"
    and blocks: "role_blocks raw = canonical_blocks marshal contents"
    by (simp_all add: role_blocks_Nil)
  have "toAnthropicMessages marshal contents = Inr (mergeConsecutiveMessages raw)"
    using assms by (simp add: toAnthropicMessages_def)
  with inv blocks mergeConsecutiveMessages_blocks [OF inv] show ?thesis
    by simp
qed

lemma example_raw_built: "raw_messages example_marshal example_contents = Inr example_raw"
  by (simp add: raw_messages_def toContentBlocks_def example_marshal_def example_contents_def
      example_raw_def convertRole_def Part_zero_def)

theorem mergeConsecutiveMessages_preserves_blocks_witness:
  "raw_messages example_marshal example_contents = Inr example_raw \<and>
   toAnthropicMessages example_marshal example_contents =
     Inr (mergeConsecutiveMessages example_raw) \<and>
   map (\<lambda>m. (msg_role m, map cb_type (carried_blocks (msg_content m)))) example_raw =
     [(''user'', [''text'']), (''assistant'', [''thinking'', ''text'', ''tool_use'']),
      (''user'', [''tool_result'']), (''user'', [''text'']),
      (''assistant'', [''text'']), (''assistant'', [''text''])] \<and>
   map (\<lambda>m. (msg_role m, map cb_type (carried_blocks (msg_content m))))
       (mergeConsecutiveMessages example_raw) =
     [(''user'', [''text'']), (''assistant'', [''thinking'', ''text'', ''tool_use'']),
      (''user'', [''tool_result'', ''text'']), (''assistant'', [''text'', ''text''])] \<and>
   role_blocks (mergeConsecutiveMessages example_raw) = role_blocks example_raw \<and>
   role_blocks example_raw = canonical_blocks example_marshal example_contents"
proof -
  have types: "map (\<lambda>m. (msg_role m, map cb_type (carried_blocks (msg_content m))))
       (mergeConsecutiveMessages example_raw) =
     [(''user'', [''text'']), (''assistant'', [''thinking'', ''text'', ''tool_use'']),
      (''user'', [''tool_result'', ''text'']), (''assistant'', [''text'', ''text''])]"
    by (simp add: mergeConsecutiveMessages_def merge_step_def example_raw_def
        ContentBlock_zero_def)
  have raw_types: "map (\<lambda>m. (msg_role m, map cb_type (carried_blocks (msg_content m))))
       example_raw =
     [(''user'', [''text'']), (''assistant'', [''thinking'', ''text'', ''tool_use'']),
      (''user'', [''tool_result'']), (''user'', [''text'']),
      (''assistant'', [''text'']), (''assistant'', [''text''])]"
    by (simp add: example_raw_def ContentBlock_zero_def)
  from mergeConsecutiveMessages_preserves_blocks [OF example_raw_built] types raw_types
  show ?thesis
    by (simp add: example_raw_built)
qed
section \<open>The stream aggregator: partial fragments and the final text\<close>

lemma partial_responses_append:
  "partial_responses (xs @ ys) = partial_responses xs @ partial_responses ys"
  by (simp add: partial_responses_def)

lemma final_responses_append:
  "final_responses (xs @ ys) = final_responses xs @ final_responses ys"
  by (simp add: final_responses_def)

lemma stream_errors_append:
  "stream_errors (xs @ ys) = stream_errors xs @ stream_errors ys"
  by (simp add: stream_errors_def)

lemma outputs_Nil:
  "partial_responses [] = []" "final_responses [] = []" "stream_errors [] = []"
  by (simp_all add: partial_responses_def final_responses_def stream_errors_def)

lemma step_ok_SomeI:
  "list_all lr_partial ps \<Longrightarrow> ys = map Inr ps \<Longrightarrow>
   textContent st' = textContent st @ concat (map visible_text ps) \<Longrightarrow> step_ok st ys (Some st')"
  by (auto simp: step_ok_def)

lemma step_ok_silent: "textContent st' = textContent st \<Longrightarrow> step_ok st [] (Some st')"
  by (rule step_ok_SomeI [of "[]"]) simp_all

lemma handleContentBlockDelta_ok:
  "handleContentBlockDelta lib data st = (ys, st') \<Longrightarrow> step_ok st ys (Some st')"
proof -
  assume h: "handleContentBlockDelta lib data st = (ys, st')"
  show ?thesis
  proof (cases "unmarshal_ContentBlockDeltaEvent lib data")
    case None
    with h show ?thesis by (auto simp: handleContentBlockDelta_def intro: step_ok_silent)
  next
    case (Some event)
    show ?thesis
    proof (cases "db_type (cbd_delta event) = ''text_delta''")
      case True
      let ?p = "LLMResponse_zero
                \<lparr>lr_content := Some
                   \<lparr>content_role = ''model'',
                    content_parts = [Part_zero\<lparr>part_text := db_text (cbd_delta event)\<rparr>]\<rparr>,
                 lr_partial := True, lr_turn_complete := False\<rparr>"
      from h Some True have "ys = map Inr [?p]"
        and "textContent st' = textContent st @ db_text (cbd_delta event)"
        by (auto simp: handleContentBlockDelta_def)
      moreover have "visible_text ?p = db_text (cbd_delta event)"
        by (simp add: visible_text_def Part_zero_def)
      moreover have "list_all lr_partial [?p]" by simp
      ultimately show ?thesis
        by (intro step_ok_SomeI [of "[?p]"]) simp_all
    next
      case False
      with h Some have "ys = []" "textContent st' = textContent st"
        by (auto simp: handleContentBlockDelta_def split: if_splits option.splits)
      then show ?thesis by (auto intro: step_ok_silent)
    qed
  qed
qed

lemma dispatch_ok: "dispatch lib et data st = (ys, r) \<Longrightarrow> step_ok st ys r"
proof -
  assume d: "dispatch lib et data st = (ys, r)"
  have a: "textContent (handleMessageStart lib data st) = textContent st"
    by (simp add: handleMessageStart_def split: option.splits)
  have b: "textContent (handleContentBlockStart lib data st) = textContent st"
    by (simp add: handleContentBlockStart_def Let_def split: option.splits)
  have c: "textContent (handleMessageDelta lib data st) = textContent st"
    by (simp add: handleMessageDelta_def Let_def split: option.splits)
  obtain x where e: "handleError lib data = [Inl x]"
    by (cases "unmarshal_ErrorResponse lib data") (simp_all add: handleError_def)
  consider (ms) "et = ''message_start''" | (cbs) "et = ''content_block_start''"
    | (cbd) "et = ''content_block_delta''" | (md) "et = ''message_delta''"
    | (err) "et = ''error''"
    | (other) "et \<noteq> ''message_start''" "et \<noteq> ''content_block_start''"
        "et \<noteq> ''content_block_delta''" "et \<noteq> ''message_delta''" "et \<noteq> ''error''"
    by blast
  then show ?thesis
  proof cases
    case ms
    with d a show ?thesis by (auto simp: dispatch_def intro: step_ok_silent)
  next
    case cbs
    with d b show ?thesis by (auto simp: dispatch_def intro: step_ok_silent)
  next
    case cbd
    with d show ?thesis
      by (auto simp: dispatch_def split: prod.splits intro: handleContentBlockDelta_ok)
  next
    case md
    with d c show ?thesis by (auto simp: dispatch_def intro: step_ok_silent)
  next
    case err
    with d e have "ys = map Inr [] @ [Inl x]" "r = None" by (auto simp: dispatch_def)
    then show ?thesis unfolding step_ok_def by (intro exI [of _ "[]"]) simp
  next
    case other
    with d show ?thesis by (auto simp: dispatch_def intro: step_ok_silent)
  qed
qed

lemma step_ok_trans:
  assumes "step_ok st ys (Some st')" and "step_ok st' zs r"
  shows "step_ok st (ys @ zs) r"
proof -
  from assms(1) obtain ps where ps: "list_all lr_partial ps" "ys = map Inr ps"
    "textContent st' = textContent st @ concat (map visible_text ps)"
    by (auto simp: step_ok_def)
  from assms(2) obtain qs where qs: "list_all lr_partial qs"
    "case r of Some st'' \<Rightarrow>
        zs = map Inr qs \<and> textContent st'' = textContent st' @ concat (map visible_text qs)
     | None \<Rightarrow> (\<exists>e. zs = map Inr qs @ [Inl e])"
    by (auto simp: step_ok_def)
  show ?thesis
    unfolding step_ok_def
    using ps qs by (intro exI [of _ "ps @ qs"]) (auto split: option.splits)
qed

lemma scan_lines_ok: "scan_lines lib cur st ls = (ys, r) \<Longrightarrow> step_ok st ys r"
proof (induction ls arbitrary: cur st ys r)
  case Nil
  then show ?case by (auto intro: step_ok_silent)
next
  case (Cons line rest)
  show ?case
  proof (cases "CutPrefix line ''event: ''")
    case (Some et)
    with Cons.prems have "scan_lines lib (TrimSpace lib et) st rest = (ys, r)" by simp
    then show ?thesis by (rule Cons.IH)
  next
    case None
    note ev = None
    show ?thesis
    proof (cases "CutPrefix line ''data: ''")
      case None
      with ev Cons.prems have "scan_lines lib cur st rest = (ys, r)" by simp
      then show ?thesis by (rule Cons.IH)
    next
      case (Some data)
      note da = Some
      show ?thesis
      proof (cases "data = []")
        case True
        with ev da Cons.prems have "scan_lines lib cur st rest = (ys, r)" by simp
        then show ?thesis by (rule Cons.IH)
      next
        case False
        obtain ds dr where d: "dispatch lib cur data st = (ds, dr)"
          by (cases "dispatch lib cur data st")
        show ?thesis
        proof (cases dr)
          case None
          with ev da False d Cons.prems have "ys = ds" "r = None" by auto
          with d None dispatch_ok show ?thesis by blast
        next
          case (Some st')
          obtain zs zr where z: "scan_lines lib [] st' rest = (zs, zr)"
            by (cases "scan_lines lib [] st' rest")
          from ev da False d Some z Cons.prems
          have "ys = ds @ zs" "r = zr" by auto
          moreover from d Some have "step_ok st ds (Some st')" using dispatch_ok by blast
          moreover from z have "step_ok st' zs zr" by (rule Cons.IH)
          ultimately show ?thesis using step_ok_trans by blast
        qed
      qed
    qed
  qed
qed

lemma concat_map_empty: "(\<And>x. f x = []) \<Longrightarrow> concat (map f xs) = []"
  by (induction xs) simp_all

lemma visible_text_finalResponse: "visible_text (finalResponse lib st) = textContent st"
  by (simp add: visible_text_def finalResponse_def Part_zero_def filter_map o_def
      case_prod_beta concat_map_empty)

lemma map_Inr_outputs:
  "list_all lr_partial ps \<Longrightarrow> partial_responses (map Inr ps) = ps"
  "list_all lr_partial ps \<Longrightarrow> final_responses (map Inr ps) = []"
  "stream_errors (map Inr ps) = []"
  by (induction ps) (simp_all add: partial_responses_def final_responses_def stream_errors_def)

lemma outputs_of_final:
  assumes "list_all lr_partial ps" and "\<not> lr_partial f"
  shows "partial_responses (map Inr ps @ [Inr f]) = ps"
    and "final_responses (map Inr ps @ [Inr f]) = [f]"
    and "stream_errors (map Inr ps @ [Inr f]) = []"
proof -
  show "partial_responses (map Inr ps @ [Inr f]) = ps"
    using assms by (simp add: partial_responses_append map_Inr_outputs) (simp add: partial_responses_def)
  show "final_responses (map Inr ps @ [Inr f]) = [f]"
    using assms by (simp add: final_responses_append map_Inr_outputs) (simp add: final_responses_def)
  show "stream_errors (map Inr ps @ [Inr f]) = []"
    by (simp add: stream_errors_append map_Inr_outputs) (simp add: stream_errors_def)
qed

lemma outputs_of_error:
  assumes "list_all lr_partial ps"
  shows "partial_responses (map Inr ps @ [Inl e]) = ps"
    and "final_responses (map Inr ps @ [Inl e]) = []"
    and "stream_errors (map Inr ps @ [Inl e]) = [e]"
proof -
  show "partial_responses (map Inr ps @ [Inl e]) = ps"
    using assms by (simp add: partial_responses_append map_Inr_outputs) (simp add: partial_responses_def)
  show "final_responses (map Inr ps @ [Inl e]) = []"
    using assms by (simp add: final_responses_append map_Inr_outputs) (simp add: final_responses_def)
  show "stream_errors (map Inr ps @ [Inl e]) = [e]"
    by (simp add: stream_errors_append map_Inr_outputs) (simp add: stream_errors_def)
qed

text \<open>The two ways a call of \<open>processStream\<close> ends.\<close>

lemma processStream_completed:
  assumes "scan_lines lib [] stream_state_init body_lines = (ys, Some st)"
  shows "\<exists>ps. list_all lr_partial ps \<and>
           processStream lib body_lines = map Inr ps @ [Inr (finalResponse lib st)] \<and>
           textContent st = concat (map visible_text ps)"
proof -
  from assms have "step_ok stream_state_init ys (Some st)" by (rule scan_lines_ok)
  then obtain ps where "list_all lr_partial ps" "ys = map Inr ps"
    "textContent st = concat (map visible_text ps)"
    by (auto simp: step_ok_def stream_state_init_def)
  with assms show ?thesis by (auto simp: processStream_def)
qed

lemma processStream_aborted:
  assumes "scan_lines lib [] stream_state_init body_lines = (ys, None)"
  shows "\<exists>ps e. list_all lr_partial ps \<and> processStream lib body_lines = map Inr ps @ [Inl e]"
proof -
  from assms have "step_ok stream_state_init ys None" by (rule scan_lines_ok)
  then obtain ps e where "list_all lr_partial ps" "ys = map Inr ps @ [Inl e]"
    by (auto simp: step_ok_def)
  with assms show ?thesis by (auto simp: processStream_def)
qed

lemma finalResponse_not_partial: "\<not> lr_partial (finalResponse lib st)"
  by (simp add: finalResponse_def)

text \<open>
  C1. For every stream body, the responses that \<open>processStream\<close> yields are partial
  responses followed by one last item. When no error is yielded there is exactly one
  non-partial (final) response, and its visible text is the concatenation, in emission
  order, of the text of the partial responses; a stream cut short by an \<open>error\<close> event
  yields the error last and no final response.
\<close>

theorem processStream_text_complete:
  "map visible_text (final_responses (processStream lib body_lines)) =
     (if stream_errors (processStream lib body_lines) = []
      then [concat (map visible_text (partial_responses (processStream lib body_lines)))]
      else []) \<and>
   processStream lib body_lines =
     map Inr (partial_responses (processStream lib body_lines)) @
     [last (processStream lib body_lines)]"
proof -
  obtain ys r where s: "scan_lines lib [] stream_state_init body_lines = (ys, r)"
    by (cases "scan_lines lib [] stream_state_init body_lines")
  show ?thesis
  proof (cases r)
    case None
    with s obtain ps e where pp: "list_all lr_partial ps"
      and p: "processStream lib body_lines = map Inr ps @ [Inl e]"
      using processStream_aborted by blast
    show ?thesis
      by (simp add: p outputs_of_error [OF pp])
  next
    case (Some st)
    with s obtain ps where pp: "list_all lr_partial ps"
      and p: "processStream lib body_lines = map Inr ps @ [Inr (finalResponse lib st)]"
      and tx: "textContent st = concat (map visible_text ps)"
      using processStream_completed by blast
    show ?thesis
      by (simp add: p outputs_of_final [OF pp finalResponse_not_partial]
          visible_text_finalResponse tx)
  qed
qed

section \<open>The stream aggregator: the shape of the final response\<close>

lemma normalized_finalResponse: "normalized_content (finalResponse lib st)"
  by (simp add: normalized_content_def finalResponse_def is_thinking_part_def is_text_part_def
      is_tool_call_part_def Part_zero_def filter_map o_def case_prod_beta)

text \<open>
  C10. For every stream body, every non-partial response that \<open>processStream\<close> yields
  (there is exactly one unless an error is yielded) has normalized content: at most one
  thinking part and at most one visible-text part, and its parts in the order thinking,
  visible text, tool calls, whatever the order in which the blocks arrived.
\<close>

theorem processStream_final_normalized:
  "list_all normalized_content (final_responses (processStream lib body_lines)) \<and>
   length (final_responses (processStream lib body_lines)) =
     (if stream_errors (processStream lib body_lines) = [] then 1 else 0)"
proof -
  obtain ys r where s: "scan_lines lib [] stream_state_init body_lines = (ys, r)"
    by (cases "scan_lines lib [] stream_state_init body_lines")
  show ?thesis
  proof (cases r)
    case None
    with s obtain ps e where pp: "list_all lr_partial ps"
      and p: "processStream lib body_lines = map Inr ps @ [Inl e]"
      using processStream_aborted by blast
    show ?thesis
      by (simp add: p outputs_of_error [OF pp])
  next
    case (Some st)
    with s obtain ps where pp: "list_all lr_partial ps"
      and p: "processStream lib body_lines = map Inr ps @ [Inr (finalResponse lib st)]"
      using processStream_completed by blast
    show ?thesis
      by (simp add: p outputs_of_final [OF pp finalResponse_not_partial]
          normalized_finalResponse)
  qed
qed

section \<open>The stream aggregator: tool-call arguments\<close>

lemma scan_lines_frames:
  "scan_lines lib cur st ls = run_frames lib st (sse_frames (TrimSpace lib) cur ls)"
proof (induction ls arbitrary: cur st)
  case Nil
  show ?case by simp
next
  case (Cons line rest)
  show ?case
    by (simp add: Cons.IH split: option.splits prod.splits)
qed

lemma run_frames_append:
  "run_frames lib st (xs @ ys) =
     (case run_frames lib st xs of
        (a, None) \<Rightarrow> (a, None)
      | (a, Some st') \<Rightarrow> (case run_frames lib st' ys of (b, r) \<Rightarrow> (a @ b, r)))"
proof (induction xs arbitrary: st)
  case Nil
  show ?case by (simp split: prod.splits)
next
  case (Cons x xs)
  obtain et d where x: "x = (et, d)" by (cases x)
  show ?case
    by (simp add: x Cons.IH split: prod.splits option.splits)
qed

lemma dispatch_no_error:
  "et \<noteq> ''error'' \<Longrightarrow> \<exists>ys st'. dispatch lib et d st = (ys, Some st')"
  by (simp add: dispatch_def split: prod.splits)

lemma run_frames_no_error:
  "\<not> list_ex (\<lambda>frame. fst frame = ''error'') fs \<Longrightarrow> \<exists>ys st'. run_frames lib st fs = (ys, Some st')"
proof (induction fs arbitrary: st)
  case Nil
  show ?case by simp
next
  case (Cons x fs)
  obtain et d where x: "x = (et, d)" by (cases x)
  with Cons.prems have ne: "et \<noteq> ''error''" and rest: "\<not> list_ex (\<lambda>frame. fst frame = ''error'') fs"
    by auto
  from dispatch_no_error [OF ne] obtain ys st' where d: "dispatch lib et d st = (ys, Some st')"
    by blast
  from Cons.IH [OF rest] obtain zs st'' where "run_frames lib st' fs = (zs, Some st'')"
    by blast
  with d x show ?case by simp
qed

lemma toolCallsMap_handleMessageStart:
  "toolCallsMap (handleMessageStart lib d st) = toolCallsMap st"
  by (simp add: handleMessageStart_def split: option.splits)

lemma toolCallsMap_handleMessageDelta:
  "toolCallsMap (handleMessageDelta lib d st) = toolCallsMap st"
  by (simp add: handleMessageDelta_def Let_def split: option.splits)

lemma toolCallsMap_handleContentBlockStart:
  "toolCallsMap (handleContentBlockStart lib d st) =
     (case unmarshal_ContentBlockStartEvent lib d of
        None \<Rightarrow> toolCallsMap st
      | Some event \<Rightarrow>
          if cb_type (cbs_content_block event) = ''tool_use''
          then AList.update (cbs_index event)
                 \<lparr>tb_id = cb_id (cbs_content_block event),
                  tb_name = cb_name (cbs_content_block event), tb_args = []\<rparr> (toolCallsMap st)
          else toolCallsMap st)"
  by (simp add: handleContentBlockStart_def Let_def split: option.splits)

lemma toolCallsMap_handleContentBlockDelta:
  "toolCallsMap (snd (handleContentBlockDelta lib d st)) =
     (case unmarshal_ContentBlockDeltaEvent lib d of
        None \<Rightarrow> toolCallsMap st
      | Some event \<Rightarrow>
          if db_type (cbd_delta event) = ''input_json_delta'' then
            (case map_of (toolCallsMap st) (cbd_index event) of
               None \<Rightarrow> toolCallsMap st
             | Some builder \<Rightarrow>
                 AList.update (cbd_index event)
                   (builder\<lparr>tb_args := tb_args builder @ db_partial_json (cbd_delta event)\<rparr>)
                   (toolCallsMap st))
          else toolCallsMap st)"
  by (simp add: handleContentBlockDelta_def split: option.splits)

text \<open>The tool-call map after one event, entry by entry.\<close>

lemma dispatch_tool_entry:
  assumes "dispatch lib et d st = (ys, Some st')"
  shows "map_of (toolCallsMap st') i =
     (if starts_tool_use lib i (et, d)
      then map_option (\<lambda>event.
             \<lparr>tb_id = cb_id (cbs_content_block event),
              tb_name = cb_name (cbs_content_block event), tb_args = []\<rparr>)
             (unmarshal_ContentBlockStartEvent lib d)
      else map_option (\<lambda>b. b\<lparr>tb_args := tb_args b @ concat (json_fragments lib i [(et, d)])\<rparr>)
             (map_of (toolCallsMap st) i))"
proof -
  consider (ms) "et = ''message_start''" | (cbs) "et = ''content_block_start''"
    | (cbd) "et = ''content_block_delta''" | (md) "et = ''message_delta''"
    | (other) "et \<noteq> ''message_start''" "et \<noteq> ''content_block_start''"
        "et \<noteq> ''content_block_delta''" "et \<noteq> ''message_delta''"
    by blast
  then show ?thesis
  proof cases
    case ms
    with assms have "st' = handleMessageStart lib d st" by (simp add: dispatch_def)
    with ms show ?thesis
      by (simp add: toolCallsMap_handleMessageStart starts_tool_use_def json_fragments_def
          option.map_ident)
  next
    case cbs
    with assms have "st' = handleContentBlockStart lib d st" by (simp add: dispatch_def)
    with cbs show ?thesis
      by (auto simp: toolCallsMap_handleContentBlockStart starts_tool_use_def json_fragments_def
          update_conv' option.map_ident split: option.splits)
  next
    case cbd
    with assms have "st' = snd (handleContentBlockDelta lib d st)"
      by (auto simp: dispatch_def split: prod.splits)
    with cbd show ?thesis
      by (auto simp: toolCallsMap_handleContentBlockDelta starts_tool_use_def json_fragments_def
          update_conv' option.map_ident split: option.splits)
  next
    case md
    with assms have "st' = handleMessageDelta lib d st" by (simp add: dispatch_def)
    with md show ?thesis
      by (simp add: toolCallsMap_handleMessageDelta starts_tool_use_def json_fragments_def
          option.map_ident)
  next
    case other
    with assms have "st' = st" by (auto simp: dispatch_def split: if_splits)
    with other show ?thesis
      by (simp add: starts_tool_use_def json_fragments_def option.map_ident)
  qed
qed

text \<open>The keys of the tool-call map after one event.\<close>

lemma dispatch_tool_keys:
  assumes "dispatch lib et d st = (ys, Some st')"
  shows "fst ` set (toolCallsMap st') =
           fst ` set (toolCallsMap st) \<union> set (tool_use_indices lib [(et, d)])"
    and "distinct (map fst (toolCallsMap st)) \<Longrightarrow> distinct (map fst (toolCallsMap st'))"
proof -
  consider (ms) "et = ''message_start''" | (cbs) "et = ''content_block_start''"
    | (cbd) "et = ''content_block_delta''" | (md) "et = ''message_delta''"
    | (other) "et \<noteq> ''message_start''" "et \<noteq> ''content_block_start''"
        "et \<noteq> ''content_block_delta''" "et \<noteq> ''message_delta''"
    by blast
  then have "fst ` set (toolCallsMap st') =
           fst ` set (toolCallsMap st) \<union> set (tool_use_indices lib [(et, d)]) \<and>
     (distinct (map fst (toolCallsMap st)) \<longrightarrow> distinct (map fst (toolCallsMap st')))"
  proof cases
    case ms
    with assms have "st' = handleMessageStart lib d st" by (simp add: dispatch_def)
    with ms show ?thesis
      by (simp add: toolCallsMap_handleMessageStart tool_use_indices_def)
  next
    case cbs
    with assms have "st' = handleContentBlockStart lib d st" by (simp add: dispatch_def)
    with cbs show ?thesis
      by (auto simp: toolCallsMap_handleContentBlockStart tool_use_indices_def
          dom_update distinct_update split: option.splits)
  next
    case cbd
    with assms have s: "st' = snd (handleContentBlockDelta lib d st)"
      by (auto simp: dispatch_def split: prod.splits)
    have "map_of al k = Some v \<Longrightarrow> k \<in> fst ` set al" for al :: "(int \<times> toolCallBuilder) list" and k v
      by (metis map_of_eq_None_iff option.distinct(1))
    with s cbd show ?thesis
      by (auto simp: toolCallsMap_handleContentBlockDelta tool_use_indices_def
          dom_update distinct_update split: option.splits)
  next
    case md
    with assms have "st' = handleMessageDelta lib d st" by (simp add: dispatch_def)
    with md show ?thesis
      by (simp add: toolCallsMap_handleMessageDelta tool_use_indices_def)
  next
    case other
    with assms have "st' = st" by (auto simp: dispatch_def split: if_splits)
    with other show ?thesis
      by (simp add: tool_use_indices_def)
  qed
  then show "fst ` set (toolCallsMap st') =
           fst ` set (toolCallsMap st) \<union> set (tool_use_indices lib [(et, d)])"
    and "distinct (map fst (toolCallsMap st)) \<Longrightarrow> distinct (map fst (toolCallsMap st'))"
    by simp_all
qed

lemma views_append:
  "tool_use_indices lib (xs @ ys) = tool_use_indices lib xs @ tool_use_indices lib ys"
  "json_fragments lib i (xs @ ys) = json_fragments lib i xs @ json_fragments lib i ys"
  by (simp_all add: tool_use_indices_def json_fragments_def)

lemma tool_use_indices_Cons:
  "tool_use_indices lib (x # xs) = tool_use_indices lib [x] @ tool_use_indices lib xs"
  by (simp add: tool_use_indices_def)

lemma json_fragments_Cons:
  "json_fragments lib i (x # xs) = json_fragments lib i [x] @ json_fragments lib i xs"
  by (simp add: json_fragments_def)

lemma views_Nil: "tool_use_indices lib [] = []" "json_fragments lib i [] = []"
  by (simp_all add: tool_use_indices_def json_fragments_def)

lemma run_frames_tool_keys:
  "run_frames lib st fs = (ys, Some st') \<Longrightarrow>
   fst ` set (toolCallsMap st') = fst ` set (toolCallsMap st) \<union> set (tool_use_indices lib fs) \<and>
   (distinct (map fst (toolCallsMap st)) \<longrightarrow> distinct (map fst (toolCallsMap st')))"
proof (induction fs arbitrary: st ys)
  case Nil
  then show ?case by (simp add: views_Nil)
next
  case (Cons x fs)
  obtain et d where x: "x = (et, d)" by (cases x)
  from Cons.prems x obtain as st1 bs where d: "dispatch lib et d st = (as, Some st1)"
    and r: "run_frames lib st1 fs = (bs, Some st')"
    by (auto split: prod.splits option.splits)
  note k = dispatch_tool_keys [OF d]
  from Cons.IH [OF r] k show ?case
    by (auto simp: x tool_use_indices_Cons [of lib "(et, d)" fs])
qed

lemma run_frames_tool_entry:
  "run_frames lib st fs = (ys, Some st') \<Longrightarrow>
   \<not> list_ex (starts_tool_use lib i) fs \<Longrightarrow>
   map_of (toolCallsMap st') i =
     map_option (\<lambda>b. b\<lparr>tb_args := tb_args b @ concat (json_fragments lib i fs)\<rparr>)
       (map_of (toolCallsMap st) i)"
proof (induction fs arbitrary: st ys)
  case Nil
  then show ?case by (simp add: views_Nil option.map_ident)
next
  case (Cons x fs)
  obtain et d where x: "x = (et, d)" by (cases x)
  from Cons.prems x obtain as st1 bs where d: "dispatch lib et d st = (as, Some st1)"
    and r: "run_frames lib st1 fs = (bs, Some st')"
    by (auto split: prod.splits option.splits)
  from Cons.prems x have n1: "\<not> starts_tool_use lib i (et, d)"
    and n2: "\<not> list_ex (starts_tool_use lib i) fs" by auto
  have "map_of (toolCallsMap st') i =
     map_option (\<lambda>b. b\<lparr>tb_args := tb_args b @ concat (json_fragments lib i fs)\<rparr>)
       (map_of (toolCallsMap st1) i)"
    using r n2 by (rule Cons.IH)
  also have "map_of (toolCallsMap st1) i =
     map_option (\<lambda>b. b\<lparr>tb_args := tb_args b @ concat (json_fragments lib i [(et, d)])\<rparr>)
       (map_of (toolCallsMap st) i)"
    using dispatch_tool_entry [OF d, of i] n1 by simp
  finally show ?case
    by (simp add: x json_fragments_Cons [of lib i "(et, d)" fs] option.map_comp o_def)
qed

lemma concat_map_singleton: "concat (map (\<lambda>x. [g x]) xs) = map g xs"
  by (induction xs) simp_all

lemma function_calls_finalResponse:
  "function_calls (finalResponse lib st) =
     map (\<lambda>(index, builder).
            \<lparr>fc_id = tb_id builder, fc_name = tb_name builder,
             fc_args = parseInputArgs lib (AnyString (tb_args builder))\<rparr>)
       (range_toolCallsMap lib (toolCallsMap st))"
  by (simp add: function_calls_def finalResponse_def Part_zero_def case_prod_beta o_def
      concat_map_singleton del: parseInputArgs.simps)

text \<open>
  C2. Take any stream body whose events contain a \<open>content_block_start\<close> that opens a
  \<open>tool_use\<close> block, followed by events \<open>post\<close> that do not open a \<open>tool_use\<close> block
  with the same index again, with no \<open>error\<close> event anywhere. Then the stream yields one
  final response and no error; the final response carries a tool call with the id and
  name of that block whose arguments are the result of parsing, once, the concatenation in
  arrival order of the \<open>input_json_delta\<close> fragments that \<open>post\<close> carries for that block
  index, and the empty argument object when that string does not parse; and it carries
  exactly one tool call for each distinct block index opened as \<open>tool_use\<close>. (The
  \<open>range\<close> over the tool-call map visits every entry once, in any order.)
\<close>

theorem processStream_tool_arguments:
  assumes frames: "sse_frames (TrimSpace lib) [] body_lines =
                     pre @ (''content_block_start'', d0) # post"
    and start: "unmarshal_ContentBlockStartEvent lib d0 = Some event"
    and tool_use: "cb_type (cbs_content_block event) = ''tool_use''"
    and no_restart: "\<not> list_ex (starts_tool_use lib (cbs_index event)) post"
    and no_error: "\<not> list_ex (\<lambda>frame. fst frame = ''error'') (pre @ post)"
    and range: "\<And>m. mset (range_toolCallsMap lib m) = mset m"
  shows "\<exists>f. final_responses (processStream lib body_lines) = [f] \<and>
           stream_errors (processStream lib body_lines) = [] \<and>
           \<lparr>fc_id = cb_id (cbs_content_block event),
            fc_name = cb_name (cbs_content_block event),
            fc_args =
              (case unmarshal_args lib (concat (json_fragments lib (cbs_index event) post)) of
                 None \<Rightarrow> []
               | Some args \<Rightarrow> args)\<rparr> \<in> set (function_calls f) \<and>
           length (function_calls f) =
             card (set (tool_use_indices lib (sse_frames (TrimSpace lib) [] body_lines)))"
proof -
  let ?i = "cbs_index event"
  let ?fs = "sse_frames (TrimSpace lib) [] body_lines"
  let ?opened = "\<lparr>tb_id = cb_id (cbs_content_block event),
              tb_name = cb_name (cbs_content_block event), tb_args = []\<rparr>"
  let ?filled = "?opened\<lparr>tb_args := concat (json_fragments lib ?i post)\<rparr>"
  have st: "starts_tool_use lib ?i (''content_block_start'', d0)"
    using start tool_use by (simp add: starts_tool_use_def)
  from no_error have "\<not> list_ex (\<lambda>frame. fst frame = ''error'') ?fs"
    by (simp add: frames)
  then obtain ys st' where run: "run_frames lib stream_state_init ?fs = (ys, Some st')"
    using run_frames_no_error by blast
  then have scan: "scan_lines lib [] stream_state_init body_lines = (ys, Some st')"
    by (simp add: scan_lines_frames)
  from run obtain as st1 where r1: "run_frames lib stream_state_init pre = (as, Some st1)"
    by (auto simp: frames run_frames_append split: prod.splits option.splits)
  with run obtain bs where
    r2: "run_frames lib st1 ((''content_block_start'', d0) # post) = (bs, Some st')"
    by (auto simp: frames run_frames_append split: prod.splits option.splits)
  then obtain cs st2 ds where d: "dispatch lib ''content_block_start'' d0 st1 = (cs, Some st2)"
    and r3: "run_frames lib st2 post = (ds, Some st')"
    by (auto split: prod.splits option.splits)
  have "map_of (toolCallsMap st2) ?i = Some ?opened"
    using dispatch_tool_entry [OF d, of ?i] st start by simp
  with run_frames_tool_entry [OF r3 no_restart]
  have entry: "map_of (toolCallsMap st') ?i = Some ?filled" by simp
  from run_frames_tool_keys [OF run]
  have keys: "fst ` set (toolCallsMap st') = set (tool_use_indices lib ?fs)"
    and dist: "distinct (map fst (toolCallsMap st'))"
    by (simp_all add: stream_state_init_def)
  let ?mk = "\<lambda>(index, builder).
            \<lparr>fc_id = tb_id builder, fc_name = tb_name builder,
             fc_args = parseInputArgs lib (AnyString (tb_args builder))\<rparr>"
  let ?f = "finalResponse lib st'"
  have fc: "function_calls ?f = map ?mk (range_toolCallsMap lib (toolCallsMap st'))"
    by (rule function_calls_finalResponse)
  have set_eq: "set (range_toolCallsMap lib (toolCallsMap st')) = set (toolCallsMap st')"
    using range by (metis set_mset_mset)
  have len_eq: "length (range_toolCallsMap lib (toolCallsMap st')) = length (toolCallsMap st')"
    using range by (metis size_mset)
  from entry have "(?i, ?filled) \<in> set (toolCallsMap st')" by (rule map_of_SomeD)
  then have "?mk (?i, ?filled) \<in> set (function_calls ?f)"
    unfolding fc set_map set_eq by (rule imageI)
  then have mem: "\<lparr>fc_id = cb_id (cbs_content_block event),
            fc_name = cb_name (cbs_content_block event),
            fc_args =
              (case unmarshal_args lib (concat (json_fragments lib ?i post)) of
                 None \<Rightarrow> []
               | Some args \<Rightarrow> args)\<rparr> \<in> set (function_calls ?f)"
    by simp
  have "length (toolCallsMap st') = card (fst ` set (toolCallsMap st'))"
    using dist by (metis distinct_card length_map set_map)
  then have len: "length (function_calls ?f) = card (set (tool_use_indices lib ?fs))"
    by (simp add: fc len_eq keys)
  from processStream_completed [OF scan] obtain ps where pp: "list_all lr_partial ps"
    and p: "processStream lib body_lines = map Inr ps @ [Inr ?f]"
    by blast
  show ?thesis
    using mem len
    by (intro exI [of _ ?f]) (simp add: p outputs_of_final [OF pp finalResponse_not_partial])
qed

section \<open>The example stream, evaluated\<close>

lemmas example_data_defs =
  d_message_start_def d_start_tool_def d_json_1_def d_json_2_def d_json_3_def d_start_text_def
  d_text_1_def d_text_2_def d_start_thinking_def d_thinking_1_def d_message_delta_def
  d_message_stop_def

lemmas stream_defs =
  processStream_def dispatch_def handleMessageStart_def handleContentBlockStart_def
  handleContentBlockDelta_def handleMessageDelta_def handleError_def finalResponse_def
  stream_state_init_def CutPrefix_def convertStopReason_def
  FinishReasonUnspecified_def FinishReasonStop_def FinishReasonMaxTokens_def

lemmas example_defs =
  example_body_def example_lib_def TrimSpace_ascii_def is_ascii_space_def
  MessagesResponse_zero_def DeltaBlock_zero_def ContentBlock_zero_def

lemma example_frames:
  "sse_frames (TrimSpace example_lib) [] example_body =
     [(''message_start'', d_message_start), (''content_block_start'', d_start_tool),
      (''content_block_delta'', d_json_1), (''content_block_delta'', d_json_2),
      (''content_block_delta'', d_json_3), (''content_block_stop'', ''{}''),
      (''content_block_start'', d_start_text),
      (''content_block_delta'', d_text_1), (''content_block_delta'', d_text_2),
      (''content_block_start'', d_start_thinking), (''content_block_delta'', d_thinking_1),
      (''message_delta'', d_message_delta), (''message_stop'', d_message_stop)]"
  by (simp add: example_body_def example_lib_def CutPrefix_def TrimSpace_ascii_def
      is_ascii_space_def example_data_defs)

lemma example_run:
  \<open>processStream example_lib example_body =
     [Inr \<lparr>lr_content = Some \<lparr>content_role = ''model'',
             content_parts = [Part_zero\<lparr>part_text := ''Hel''\<rparr>]\<rparr>,
           lr_usage_metadata = None, lr_finish_reason = [], lr_partial = True,
           lr_turn_complete = False\<rparr>,
      Inr \<lparr>lr_content = Some \<lparr>content_role = ''model'',
             content_parts = [Part_zero\<lparr>part_text := ''lo''\<rparr>]\<rparr>,
           lr_usage_metadata = None, lr_finish_reason = [], lr_partial = True,
           lr_turn_complete = False\<rparr>,
      Inr \<lparr>lr_content = Some \<lparr>content_role = ''model'',
             content_parts =
               [Part_zero\<lparr>part_text := ''hm'', part_thought := True\<rparr>,
                Part_zero\<lparr>part_text := ''Hello''\<rparr>,
                Part_zero\<lparr>part_function_call := Some
                  \<lparr>fc_id = ''toolu_1'', fc_name = ''get_quote'',
                   fc_args = [(''symbol'', AnyString ''sh600519'')]\<rparr>\<rparr>]\<rparr>,
           lr_usage_metadata = Some
             \<lparr>um_prompt_token_count = 12, um_candidates_token_count = 7,
              um_total_token_count = 19\<rparr>,
           lr_finish_reason = ''STOP'', lr_partial = False, lr_turn_complete = True\<rparr>]\<close>
  by (simp add: stream_defs example_defs example_data_defs LLMResponse_zero_def Part_zero_def)

text \<open>
  Scenario D of the specification: the fragments \<open>{"sym\<close>, \<open>bol":"s\<close> and
  \<open>h600519"}\<close> are put together and parsed once.
\<close>

theorem processStream_tool_arguments_witness:
  \<open>\<exists>f. final_responses (processStream example_lib example_body) = [f] \<and>
        stream_errors (processStream example_lib example_body) = [] \<and>
        \<lparr>fc_id = ''toolu_1'', fc_name = ''get_quote'',
         fc_args = [(''symbol'', AnyString ''sh600519'')]\<rparr> \<in> set (function_calls f) \<and>
        length (function_calls f) = 1\<close>
proof -
  let ?event = "\<lparr>cbs_type = ''content_block_start'', cbs_index = 0,
           cbs_content_block = ContentBlock_zero
             \<lparr>cb_type := ''tool_use'', cb_id := ''toolu_1'', cb_name := ''get_quote''\<rparr>\<rparr>"
  let ?pre = "[(''message_start'', d_message_start)]"
  let ?post = "[(''content_block_delta'', d_json_1), (''content_block_delta'', d_json_2),
      (''content_block_delta'', d_json_3), (''content_block_stop'', ''{}''),
      (''content_block_start'', d_start_text),
      (''content_block_delta'', d_text_1), (''content_block_delta'', d_text_2),
      (''content_block_start'', d_start_thinking), (''content_block_delta'', d_thinking_1),
      (''message_delta'', d_message_delta), (''message_stop'', d_message_stop)]"
  have frames: "sse_frames (TrimSpace example_lib) [] example_body =
      ?pre @ (''content_block_start'', d_start_tool) # ?post"
    by (simp add: example_frames)
  have start: "unmarshal_ContentBlockStartEvent example_lib d_start_tool = Some ?event"
    by (simp add: example_lib_def)
  have tool_use: "cb_type (cbs_content_block ?event) = ''tool_use''"
    by simp
  have no_restart: "\<not> list_ex (starts_tool_use example_lib (cbs_index ?event)) ?post"
    by (simp add: starts_tool_use_def example_lib_def example_data_defs)
  have no_error: "\<not> list_ex (\<lambda>frame. fst frame = ''error'') (?pre @ ?post)"
    by simp
  have range: "mset (range_toolCallsMap example_lib m) = mset m" for m
    by (simp add: example_lib_def)
  have frags: \<open>json_fragments example_lib (cbs_index ?event) ?post =
      [''{"sym'', ''bol":"s'', ''h600519"}'']\<close>
    by (simp add: json_fragments_def example_lib_def example_data_defs DeltaBlock_zero_def)
  have args: \<open>unmarshal_args example_lib (''{"sym'' @ ''bol":"s'' @ ''h600519"}'') =
      Some [(''symbol'', AnyString ''sh600519'')]\<close>
    by (simp add: example_lib_def)
  have indices: "tool_use_indices example_lib
      (?pre @ (''content_block_start'', d_start_tool) # ?post) = [0]"
    by (simp add: tool_use_indices_def example_lib_def example_data_defs ContentBlock_zero_def)
  from processStream_tool_arguments [OF frames start tool_use no_restart no_error range]
  show ?thesis
    unfolding frames indices frags
    using args by (simp add: ContentBlock_zero_def)
qed

text \<open>
  The blocks of the example arrive in the order tool use, text, thinking; the final
  response lists them as thinking, text, tool call.
\<close>

theorem processStream_final_normalized_example:
  \<open>final_responses (processStream example_lib example_body) =
     [\<lparr>lr_content = Some \<lparr>content_role = ''model'',
             content_parts =
               [Part_zero\<lparr>part_text := ''hm'', part_thought := True\<rparr>,
                Part_zero\<lparr>part_text := ''Hello''\<rparr>,
                Part_zero\<lparr>part_function_call := Some
                  \<lparr>fc_id = ''toolu_1'', fc_name = ''get_quote'',
                   fc_args = [(''symbol'', AnyString ''sh600519'')]\<rparr>\<rparr>]\<rparr>,
           lr_usage_metadata = Some
             \<lparr>um_prompt_token_count = 12, um_candidates_token_count = 7,
              um_total_token_count = 19\<rparr>,
           lr_finish_reason = ''STOP'', lr_partial = False, lr_turn_complete = True\<rparr>] \<and>
   list_all normalized_content (final_responses (processStream example_lib example_body))\<close>
  using processStream_final_normalized [of example_lib example_body]
  by (simp add: example_run final_responses_def)

text \<open>The two partial fragments of the example and the text of its final response.\<close>

theorem processStream_text_complete_example:
  \<open>map visible_text (partial_responses (processStream example_lib example_body)) =
     [''Hel'', ''lo''] \<and>
   map visible_text (final_responses (processStream example_lib example_body)) = [''Hello'']\<close>
  using processStream_text_complete [of example_lib example_body]
  by (simp add: example_run final_responses_def partial_responses_def stream_errors_def
      visible_text_def Part_zero_def)

section \<open>The agent loop of the smart meeting\<close>

lemma agent_runs_append: "agent_runs (xs @ ys) = agent_runs xs @ agent_runs ys"
  by (simp add: agent_runs_def)

lemma agent_runs_simps:
  "agent_runs [] = []"
  "agent_runs (emit progress event) = []"
  "agent_runs (map Progress events) = []"
  "agent_runs [AgentRun cfg ctx r] = [(cfg, ctx, r)]"
  "agent_runs [Responded resp] = []"
  "agent_runs [SummarizeRun d h r'] = []"
  "agent_runs [SaveMemory s h] = []"
  by (simp_all add: agent_runs_def emit_def o_def)

lemma agent_runs_Cons:
  "agent_runs (AgentRun cfg ctx r # t) = (cfg, ctx, r) # agent_runs t"
  "agent_runs (Progress event # t) = agent_runs t"
  "agent_runs (Responded resp # t) = agent_runs t"
  "agent_runs (SummarizeRun d h r' # t) = agent_runs t"
  "agent_runs (SaveMemory s h # t) = agent_runs t"
  by (simp_all add: agent_runs_def)

lemma summary_runs_append: "summary_runs (xs @ ys) = summary_runs xs @ summary_runs ys"
  by (simp add: summary_runs_def)

lemma summary_runs_simps:
  "summary_runs [] = []"
  "summary_runs (emit progress event) = []"
  "summary_runs (map Progress events) = []"
  "summary_runs [AgentRun cfg ctx r] = []"
  "summary_runs [Responded resp] = []"
  "summary_runs [SummarizeRun d h r'] = [(d, h, r')]"
  "summary_runs [SaveMemory s h] = []"
  by (simp_all add: summary_runs_def emit_def o_def)

lemma summary_runs_Cons:
  "summary_runs (AgentRun cfg ctx r # t) = summary_runs t"
  "summary_runs (Progress event # t) = summary_runs t"
  "summary_runs (Responded resp # t) = summary_runs t"
  "summary_runs (SummarizeRun d h r' # t) = (d, h, r') # summary_runs t"
  "summary_runs (SaveMemory s h # t) = summary_runs t"
  by (simp_all add: summary_runs_def)

lemma memory_saves_append: "memory_saves (xs @ ys) = memory_saves xs @ memory_saves ys"
  by (simp add: memory_saves_def)

lemma memory_saves_simps:
  "memory_saves [] = []"
  "memory_saves (emit progress event) = []"
  "memory_saves (map Progress events) = []"
  "memory_saves [AgentRun cfg ctx r] = []"
  "memory_saves [Responded resp] = []"
  "memory_saves [SummarizeRun d h r'] = []"
  "memory_saves [SaveMemory s h] = [(s, h)]"
  by (simp_all add: memory_saves_def emit_def o_def)

lemma memory_saves_Cons:
  "memory_saves (AgentRun cfg ctx r # t) = memory_saves t"
  "memory_saves (Progress event # t) = memory_saves t"
  "memory_saves (Responded resp # t) = memory_saves t"
  "memory_saves (SummarizeRun d h r' # t) = memory_saves t"
  "memory_saves (SaveMemory s h # t) = (s, h) # memory_saves t"
  by (simp_all add: memory_saves_def)

lemma runs_views_append:
  "opinions_of (xs @ ys) = opinions_of xs @ opinions_of ys"
  "entries_of (xs @ ys) = entries_of xs @ entries_of ys"
  "contents_of (xs @ ys) = contents_of xs @ contents_of ys"
  by (simp_all add: opinions_of_def entries_of_def contents_of_def)

lemma runs_views_simps:
  "opinions_of [] = []" "entries_of [] = []" "contents_of [] = []"
  "opinions_of [(cfg, ctx, Inl err)] = []"
  "entries_of [(cfg, ctx, Inl err)] = []"
  "contents_of [(cfg, ctx, Inl err)] = []"
  "opinions_of [(cfg, ctx, Inr c)] = [opinion_response cfg c]"
  "entries_of [(cfg, ctx, Inr c)] = [history_entry cfg c]"
  "contents_of [(cfg, ctx, Inr c)] = [c]"
  by (simp_all add: opinions_of_def entries_of_def contents_of_def)

text \<open>One iteration of the loop that finds the meeting still running.\<close>

lemma agents_loop_step:
  assumes "\<not> w_meeting_done w i"
  shows "\<exists>r st1.
      agents_loop w mem rcb pcb i (a # rest) st = agents_loop w mem rcb pcb (Suc i) rest st1 \<and>
      agent_runs (ms_trace st1) =
        agent_runs (ms_trace st) @ [(a, loop_context mem (ms_history st), r)] \<and>
      ms_responses st1 = ms_responses st @ opinions_of [(a, loop_context mem (ms_history st), r)] \<and>
      ms_history st1 = ms_history st @ entries_of [(a, loop_context mem (ms_history st), r)] \<and>
      summary_runs (ms_trace st1) = summary_runs (ms_trace st) \<and>
      memory_saves (ms_trace st1) = memory_saves (ms_trace st)"
proof -
  let ?ctx = "loop_context mem (ms_history st)"
  obtain events r where run:
    "runSingleAgentWithHistory (w_agent w i a ?ctx) a pcb = (events, r)"
    by (cases "runSingleAgentWithHistory (w_agent w i a ?ctx) a pcb")
  show ?thesis
  proof (cases r)
    case (Inl err)
    let ?st1 = "st\<lparr>ms_trace := ms_trace st @ emit pcb (agent_start a) @
                      map Progress events @ [AgentRun a ?ctx (Inl err)] @
                      emit pcb (agent_done a)\<rparr>"
    have "agents_loop w mem rcb pcb i (a # rest) st = agents_loop w mem rcb pcb (Suc i) rest ?st1"
      using assms run Inl by (simp add: loop_context_def)
    moreover have "agent_runs (ms_trace ?st1) = agent_runs (ms_trace st) @ [(a, ?ctx, r)]"
      by (simp add: agent_runs_append agent_runs_simps agent_runs_Cons Inl)
    moreover have "summary_runs (ms_trace ?st1) = summary_runs (ms_trace st)"
      by (simp add: summary_runs_append summary_runs_simps summary_runs_Cons)
    moreover have "memory_saves (ms_trace ?st1) = memory_saves (ms_trace st)"
      by (simp add: memory_saves_append memory_saves_simps memory_saves_Cons)
    ultimately show ?thesis
      by (intro exI [of _ r] exI [of _ ?st1]) (simp add: runs_views_simps Inl)
  next
    case (Inr content)
    let ?st1 = "\<lparr>ms_responses = ms_responses st @ [opinion_response a content],
                   ms_history = ms_history st @ [history_entry a content],
                   ms_trace = ms_trace st @ emit pcb (agent_start a) @
                      map Progress events @ [AgentRun a ?ctx (Inr content)] @
                      emit pcb (agent_done a) @
                      (if rcb then [Responded (opinion_response a content)] else [])\<rparr>"
    have "agents_loop w mem rcb pcb i (a # rest) st = agents_loop w mem rcb pcb (Suc i) rest ?st1"
      using assms run Inr by (simp add: loop_context_def)
    moreover have "agent_runs (ms_trace ?st1) = agent_runs (ms_trace st) @ [(a, ?ctx, r)]"
      by (simp add: agent_runs_append agent_runs_simps agent_runs_Cons Inr)
    moreover have "summary_runs (ms_trace ?st1) = summary_runs (ms_trace st)"
      by (simp add: summary_runs_append summary_runs_simps summary_runs_Cons)
    moreover have "memory_saves (ms_trace ?st1) = memory_saves (ms_trace st)"
      by (simp add: memory_saves_append memory_saves_simps memory_saves_Cons)
    ultimately show ?thesis
      by (intro exI [of _ r] exI [of _ ?st1]) (simp add: runs_views_simps Inr)
  qed
qed

lemma agents_loop_runs:
  "agents_loop w mem rcb pcb i agents st = (st', b) \<Longrightarrow>
   \<exists>new. agent_runs (ms_trace st') = agent_runs (ms_trace st) @ new \<and>
         ms_responses st' = ms_responses st @ opinions_of new \<and>
         ms_history st' = ms_history st @ entries_of new \<and>
         (if b then (\<exists>k<length agents. w_meeting_done w (i + k) \<and>
                       (\<forall>j<k. \<not> w_meeting_done w (i + j)) \<and> map fst new = take k agents)
          else (\<forall>j<length agents. \<not> w_meeting_done w (i + j)) \<and> map fst new = agents) \<and>
         (\<forall>n<length new. fst (snd (new ! n)) =
               loop_context mem (ms_history st @ entries_of (take n new)))"
proof (induction agents arbitrary: i st)
  case Nil
  then have "st' = st" "b = False" by simp_all
  then show ?case
    by (intro exI [of _ "[]"]) (simp add: runs_views_simps)
next
  case (Cons a rest)
  show ?case
  proof (cases "w_meeting_done w i")
    case True
    with Cons.prems have "st' = st" "b = True" by simp_all
    with True show ?thesis
      by (intro exI [of _ "[]"]) (auto simp: runs_views_simps intro: exI [of _ 0])
  next
    case False
    let ?ctx = "loop_context mem (ms_history st)"
    from agents_loop_step [OF False, of mem rcb pcb a rest st]
    obtain r st1 where
      step: "agents_loop w mem rcb pcb i (a # rest) st = agents_loop w mem rcb pcb (Suc i) rest st1"
      and runs1: "agent_runs (ms_trace st1) = agent_runs (ms_trace st) @ [(a, ?ctx, r)]"
      and resp1: "ms_responses st1 = ms_responses st @ opinions_of [(a, ?ctx, r)]"
      and hist1: "ms_history st1 = ms_history st @ entries_of [(a, ?ctx, r)]"
      by blast
    from step Cons.prems have "agents_loop w mem rcb pcb (Suc i) rest st1 = (st', b)" by simp
    from Cons.IH [OF this] obtain new where
      runs: "agent_runs (ms_trace st') = agent_runs (ms_trace st1) @ new"
      and resp: "ms_responses st' = ms_responses st1 @ opinions_of new"
      and hist: "ms_history st' = ms_history st1 @ entries_of new"
      and sched: "if b then (\<exists>k<length rest. w_meeting_done w (Suc i + k) \<and>
                       (\<forall>j<k. \<not> w_meeting_done w (Suc i + j)) \<and> map fst new = take k rest)
          else (\<forall>j<length rest. \<not> w_meeting_done w (Suc i + j)) \<and> map fst new = rest"
      and ctxs: "\<forall>n<length new. fst (snd (new ! n)) =
               loop_context mem (ms_history st1 @ entries_of (take n new))"
      by blast
    let ?new = "(a, ?ctx, r) # new"
    have 1: "agent_runs (ms_trace st') = agent_runs (ms_trace st) @ ?new"
      by (simp add: runs runs1)
    have 2: "ms_responses st' = ms_responses st @ opinions_of ?new"
      using runs_views_append(1) [of "[(a, ?ctx, r)]" new] by (simp add: resp resp1)
    have 3: "ms_history st' = ms_history st @ entries_of ?new"
      using runs_views_append(2) [of "[(a, ?ctx, r)]" new] by (simp add: hist hist1)
    have 4: "if b then (\<exists>k<length (a # rest). w_meeting_done w (i + k) \<and>
                       (\<forall>j<k. \<not> w_meeting_done w (i + j)) \<and> map fst ?new = take k (a # rest))
          else (\<forall>j<length (a # rest). \<not> w_meeting_done w (i + j)) \<and> map fst ?new = a # rest"
    proof (cases b)
      case True
      with sched obtain k where k: "k < length rest" "w_meeting_done w (Suc i + k)"
        "\<forall>j<k. \<not> w_meeting_done w (Suc i + j)" "map fst new = take k rest"
        by auto
      have "\<forall>j<Suc k. \<not> w_meeting_done w (i + j)"
      proof (intro allI impI)
        fix j assume "j < Suc k"
        then show "\<not> w_meeting_done w (i + j)"
          using False k(3) by (cases j) auto
      qed
      with k True show ?thesis
        by (auto intro!: exI [of _ "Suc k"])
    next
      case b: False
      with sched have r: "\<forall>j<length rest. \<not> w_meeting_done w (Suc i + j)" "map fst new = rest"
        by auto
      have "\<forall>j<length (a # rest). \<not> w_meeting_done w (i + j)"
      proof (intro allI impI)
        fix j assume "j < length (a # rest)"
        then show "\<not> w_meeting_done w (i + j)"
          using False r(1) by (cases j) auto
      qed
      with r b show ?thesis by simp
    qed
    have 5: "\<forall>n<length ?new. fst (snd (?new ! n)) =
               loop_context mem (ms_history st @ entries_of (take n ?new))"
    proof (intro allI impI)
      fix n assume n: "n < length ?new"
      show "fst (snd (?new ! n)) = loop_context mem (ms_history st @ entries_of (take n ?new))"
      proof (cases n)
        case 0
        then show ?thesis by (simp add: runs_views_simps)
      next
        case (Suc m)
        with n have "m < length new" by simp
        with ctxs have "fst (snd (new ! m)) =
            loop_context mem (ms_history st1 @ entries_of (take m new))" by blast
        moreover have "entries_of (take (Suc m) ?new) =
            entries_of [(a, ?ctx, r)] @ entries_of (take m new)"
          using runs_views_append(2) [of "[(a, ?ctx, r)]" "take m new"] by simp
        ultimately show ?thesis
          by (simp add: Suc hist1)
      qed
    qed
    from 1 2 3 4 5 show ?thesis by blast
  qed
qed


text \<open>The loop calls no summary and starts no memory task.\<close>

lemma agents_loop_quiet:
  "agents_loop w mem rcb pcb i agents st = (st', b) \<Longrightarrow>
   summary_runs (ms_trace st') = summary_runs (ms_trace st) \<and>
   memory_saves (ms_trace st') = memory_saves (ms_trace st)"
proof (induction agents arbitrary: i st)
  case Nil
  then show ?case by simp
next
  case (Cons a rest)
  show ?case
  proof (cases "w_meeting_done w i")
    case True
    with Cons.prems show ?thesis by simp
  next
    case False
    from agents_loop_step [OF False, of mem rcb pcb a rest st]
    obtain st1 where
      step: "agents_loop w mem rcb pcb i (a # rest) st = agents_loop w mem rcb pcb (Suc i) rest st1"
      and quiet: "summary_runs (ms_trace st1) = summary_runs (ms_trace st)"
        "memory_saves (ms_trace st1) = memory_saves (ms_trace st)"
      by blast
    from step Cons.prems have "agents_loop w mem rcb pcb (Suc i) rest st1 = (st', b)" by simp
    from Cons.IH [OF this] quiet show ?thesis by simp
  qed
qed
section \<open>What a smart meeting returns\<close>

lemma opening_state_simps:
  "ms_responses (opening_state decision rcb pcb) = [opening_response decision]"
  "ms_history (opening_state decision rcb pcb) = []"
  "agent_runs (ms_trace (opening_state decision rcb pcb)) = []"
  "summary_runs (ms_trace (opening_state decision rcb pcb)) = []"
  "memory_saves (ms_trace (opening_state decision rcb pcb)) = []"
  by (simp_all add: opening_state_def agent_runs_append agent_runs_simps
      summary_runs_append summary_runs_simps memory_saves_append memory_saves_simps)

lemma summaries_of_simps:
  "summaries_of [] = []"
  "summaries_of [(d, h, w_summarize w d h)] = summary_part w d h"
  by (simp_all add: summaries_of_def summary_part_def split: sum.splits)

lemma final_round_result:
  "final_round w rcb pcb done st = (responses, err, trace) \<Longrightarrow>
   responses = ms_responses st @ summary_part w done (ms_history st) \<and> err = None \<and>
   agent_runs trace = agent_runs (ms_trace st)"
  by (auto simp: final_round_def summary_part_def agent_runs_append agent_runs_simps
      agent_runs_Cons split: sum.splits if_splits)

lemma final_round_summary:
  "final_round w rcb pcb done st = (responses, err, trace) \<Longrightarrow>
   summary_runs trace =
     summary_runs (ms_trace st) @ [(done, ms_history st, w_summarize w done (ms_history st))]"
  by (auto simp: final_round_def summary_runs_append summary_runs_simps
      summary_runs_Cons split: sum.splits if_splits)

text \<open>A meeting that gets past the analysis with at least one selected agent.\<close>

lemma smart_meeting_loop:
  assumes "aiConfig = Some config" and "req_all_agents req \<noteq> []"
    and "w_create_model w = None" and "w_analyze w = Inr decision"
    and "filterAgentsOrdered (req_all_agents req) (dec_selected decision) = selected"
    and "selected \<noteq> []"
  shows "RunSmartMeetingWithCallback w aiConfig req rcb pcb =
     (case agents_loop w (memoryContext_of w) rcb pcb 0 selected (opening_state decision rcb pcb) of
        (st, True) \<Rightarrow> (ms_responses st, Some ErrMeetingTimeout, ms_trace st)
      | (st, False) \<Rightarrow> final_round w rcb pcb (w_meeting_done w (length selected)) st)"
  using assms by (simp add: RunSmartMeetingWithCallback_def Let_def)

text \<open>What such a meeting returns, from what its loop does.\<close>

lemma smart_meeting_result:
  assumes pre: "aiConfig = Some config" "req_all_agents req \<noteq> []"
    "w_create_model w = None" "w_analyze w = Inr decision"
    "filterAgentsOrdered (req_all_agents req) (dec_selected decision) = selected"
    "selected \<noteq> []"
    and run: "RunSmartMeetingWithCallback w aiConfig req rcb pcb = (responses, err, trace)"
  shows "\<exists>b. err = (if b then Some ErrMeetingTimeout else None) \<and>
     responses = opening_response decision # opinions_of (agent_runs trace) @
       (if b then []
        else summary_part w (w_meeting_done w (length selected)) (entries_of (agent_runs trace))) \<and>
     (if b then (\<exists>k<length selected. w_meeting_done w k \<and>
                   (\<forall>j<k. \<not> w_meeting_done w j) \<and> map fst (agent_runs trace) = take k selected)
      else (\<forall>j<length selected. \<not> w_meeting_done w j) \<and> map fst (agent_runs trace) = selected) \<and>
     (\<forall>n<length (agent_runs trace). fst (snd (agent_runs trace ! n)) =
         loop_context (memoryContext_of w) (entries_of (take n (agent_runs trace)))) \<and>
     summary_runs trace =
       (if b then []
        else [(w_meeting_done w (length selected), entries_of (agent_runs trace),
               w_summarize w (w_meeting_done w (length selected))
                 (entries_of (agent_runs trace)))]) \<and>
     (if b then memory_saves trace = [] else True)"
proof -
  let ?st0 = "opening_state decision rcb pcb"
  obtain st b where loop:
    "agents_loop w (memoryContext_of w) rcb pcb 0 selected ?st0 = (st, b)"
    by (cases "agents_loop w (memoryContext_of w) rcb pcb 0 selected ?st0")
  from agents_loop_runs [OF loop] obtain new where
    runs0: "agent_runs (ms_trace st) = agent_runs (ms_trace ?st0) @ new"
    and resp0: "ms_responses st = ms_responses ?st0 @ opinions_of new"
    and hist0: "ms_history st = ms_history ?st0 @ entries_of new"
    and sched0: "if b then (\<exists>k<length selected. w_meeting_done w (0 + k) \<and>
                       (\<forall>j<k. \<not> w_meeting_done w (0 + j)) \<and> map fst new = take k selected)
          else (\<forall>j<length selected. \<not> w_meeting_done w (0 + j)) \<and> map fst new = selected"
    and ctxs0: "\<forall>n<length new. fst (snd (new ! n)) =
               loop_context (memoryContext_of w) (ms_history ?st0 @ entries_of (take n new))"
    by blast
  have runs: "agent_runs (ms_trace st) = new"
    and resp: "ms_responses st = opening_response decision # opinions_of new"
    and hist: "ms_history st = entries_of new"
    using runs0 resp0 hist0 by (simp_all add: opening_state_simps)
  have quiet: "summary_runs (ms_trace st) = []" "memory_saves (ms_trace st) = []"
    using agents_loop_quiet [OF loop] by (simp_all add: opening_state_simps)
  have sched: "if b then (\<exists>k<length selected. w_meeting_done w k \<and>
                       (\<forall>j<k. \<not> w_meeting_done w j) \<and> map fst new = take k selected)
          else (\<forall>j<length selected. \<not> w_meeting_done w j) \<and> map fst new = selected"
    using sched0 by (cases b) simp_all
  have ctxs: "\<forall>n<length new. fst (snd (new ! n)) =
               loop_context (memoryContext_of w) (entries_of (take n new))"
    using ctxs0 by (simp add: opening_state_simps)
  from smart_meeting_loop [OF pre, of rcb pcb] run loop
  have r: "(responses, err, trace) =
      (if b then (ms_responses st, Some ErrMeetingTimeout, ms_trace st)
       else final_round w rcb pcb (w_meeting_done w (length selected)) st)"
    by simp
  show ?thesis
  proof (cases b)
    case True
    with r have "responses = ms_responses st" "err = Some ErrMeetingTimeout" "trace = ms_trace st"
      by simp_all
    with True runs resp sched ctxs quiet show ?thesis
      by (intro exI [of _ True]) simp
  next
    case False
    with r have f: "final_round w rcb pcb (w_meeting_done w (length selected)) st =
        (responses, err, trace)" by simp
    from final_round_result [OF f]
    have "responses = ms_responses st @
        summary_part w (w_meeting_done w (length selected)) (ms_history st)"
      "err = None" "agent_runs trace = agent_runs (ms_trace st)"
      by simp_all
    moreover from final_round_summary [OF f] quiet
    have "summary_runs trace =
        [(w_meeting_done w (length selected), ms_history st,
          w_summarize w (w_meeting_done w (length selected)) (ms_history st))]"
      by simp
    ultimately show ?thesis
      using False runs resp hist sched ctxs by (intro exI [of _ False]) simp
  qed
qed

text \<open>How a smart meeting can end.\<close>

lemma smart_meeting_cases:
  assumes "RunSmartMeetingWithCallback w aiConfig req rcb pcb = (responses, err, trace)"
  obtains (failed) "responses = []" "err \<noteq> None" "err \<noteq> Some ErrMeetingTimeout"
      "agent_runs trace = []"
    | (nobody) decision where "w_analyze w = Inr decision"
      "responses = [opening_response decision]" "err = None"
      "agent_runs trace = []" "summary_runs trace = []"
    | (ran) config decision selected where "aiConfig = Some config" "req_all_agents req \<noteq> []"
      "w_create_model w = None" "w_analyze w = Inr decision"
      "filterAgentsOrdered (req_all_agents req) (dec_selected decision) = selected"
      "selected \<noteq> []"
proof (cases aiConfig)
  case None
  with assms have "responses = []" "err = Some ErrNoAIConfig" "trace = []"
    by (simp_all add: RunSmartMeetingWithCallback_def)
  then show ?thesis by (intro failed) (simp_all add: agent_runs_simps)
next
  case (Some config)
  note cfg = Some
  show ?thesis
  proof (cases "req_all_agents req = []")
    case True
    with assms cfg have "responses = []" "err = Some ErrNoAgents" "trace = []"
      by (simp_all add: RunSmartMeetingWithCallback_def)
    then show ?thesis by (intro failed) (simp_all add: agent_runs_simps)
  next
    case False
    note roster = False
    show ?thesis
    proof (cases "w_create_model w")
      case (Some e)
      with assms cfg roster have "responses = []"
        "err = Some (Wrapped ''create model error: %w'' e)" "trace = []"
        by (simp_all add: RunSmartMeetingWithCallback_def)
      then show ?thesis by (intro failed) (simp_all add: agent_runs_simps)
    next
      case None
      note model = None
      show ?thesis
      proof (cases "w_analyze w")
        case (Inl e)
        with assms cfg roster model have "responses = []"
          "err = Some (if errors_Is e DeadlineExceeded
                       then Wrapped moderator_timeout_format ErrModeratorTimeout
                       else Wrapped ''moderator analyze error: %w'' e)"
          "trace = emit pcb (moderator_start detail_analyze) @ emit pcb moderator_done"
          by (simp_all add: RunSmartMeetingWithCallback_def)
        then show ?thesis
          by (intro failed) (simp_all add: agent_runs_simps agent_runs_append)
      next
        case (Inr decision)
        show ?thesis
        proof (cases "filterAgentsOrdered (req_all_agents req) (dec_selected decision) = []")
          case True
          with assms cfg roster model Inr
          have "responses = ms_responses (opening_state decision rcb pcb)" "err = None"
            "trace = ms_trace (opening_state decision rcb pcb)"
            by (simp_all add: RunSmartMeetingWithCallback_def Let_def)
          with Inr show ?thesis
            by (intro nobody [of decision]) (simp_all add: opening_state_simps)
        next
          case False
          with cfg roster model Inr show ?thesis
            by (intro ran [of config decision
                  "filterAgentsOrdered (req_all_agents req) (dec_selected decision)"]) simp_all
        qed
      qed
    qed
  qed
qed

text \<open>
  C5. When the moderator's analysis ends with an error that is or wraps
  \<open>context.DeadlineExceeded\<close>, the meeting returns no response and an error that wraps
  \<open>ErrModeratorTimeout\<close>, which is not the error returned for any other failure of the
  analysis, and no agent is run.
\<close>

theorem moderator_timeout_fails_meeting:
  assumes "aiConfig = Some config" and "req_all_agents req \<noteq> []"
    and "w_create_model w = None" and "w_analyze w = Inl e"
    and "errors_Is e DeadlineExceeded"
  shows "RunSmartMeetingWithCallback w aiConfig req rcb pcb =
           ([], Some (Wrapped moderator_timeout_format ErrModeratorTimeout),
            emit pcb (moderator_start detail_analyze) @ emit pcb moderator_done) \<and>
         errors_Is (Wrapped moderator_timeout_format ErrModeratorTimeout) ErrModeratorTimeout \<and>
         Wrapped moderator_timeout_format ErrModeratorTimeout \<noteq>
           Wrapped ''moderator analyze error: %w'' e \<and>
         agent_runs (snd (snd (RunSmartMeetingWithCallback w aiConfig req rcb pcb))) = []"
proof -
  have "moderator_timeout_format \<noteq> ''moderator analyze error: %w''"
    by (simp add: moderator_timeout_format_def)
  with assms show ?thesis
    by (simp add: RunSmartMeetingWithCallback_def agent_runs_append agent_runs_simps)
qed

text \<open>
  C6, as amended. In a smart meeting in which no agent's turn finds the meeting's deadline
  expired, an agent call that fails, by a deadline or otherwise, adds no response and no
  error: the meeting returns a nil error, every selected agent is called, in the selected
  order, and the responses are the opening, the opinions of exactly the calls that
  succeeded, and the summary if the moderator gives one.
\<close>

theorem failed_agent_is_skipped:
  assumes "aiConfig = Some config" and "req_all_agents req \<noteq> []"
    and "w_create_model w = None" and "w_analyze w = Inr decision"
    and "filterAgentsOrdered (req_all_agents req) (dec_selected decision) = selected"
    and "selected \<noteq> []"
    and alive: "\<forall>i<length selected. \<not> w_meeting_done w i"
    and run: "RunSmartMeetingWithCallback w aiConfig req rcb pcb = (responses, err, trace)"
  shows "err = None \<and> map fst (agent_runs trace) = selected \<and>
         responses = opening_response decision # opinions_of (agent_runs trace) @
           summary_part w (w_meeting_done w (length selected)) (entries_of (agent_runs trace))"
proof -
  from smart_meeting_result [OF assms(1-6) run] obtain b where
    e: "err = (if b then Some ErrMeetingTimeout else None)"
    and r: "responses = opening_response decision # opinions_of (agent_runs trace) @
       (if b then []
        else summary_part w (w_meeting_done w (length selected)) (entries_of (agent_runs trace)))"
    and s: "if b then (\<exists>k<length selected. w_meeting_done w k \<and>
                   (\<forall>j<k. \<not> w_meeting_done w j) \<and> map fst (agent_runs trace) = take k selected)
      else (\<forall>j<length selected. \<not> w_meeting_done w j) \<and> map fst (agent_runs trace) = selected"
    by blast
  have "\<not> b"
  proof
    assume b
    with s obtain k where "k < length selected" "w_meeting_done w k" by auto
    with alive show False by blast
  qed
  with e r s show ?thesis by simp
qed

text \<open>
  C7, as amended. In a smart meeting the deadline is looked at when an agent's turn
  starts. If the turn of the agent at position \<open>k\<close> is the first to find it expired, the
  meeting stops there: the agents before position \<open>k\<close> have been called and no other,
  \<open>moderator.Summarize\<close> is not called and no memory task is started, and the meeting
  returns the opening and the opinions of the calls that succeeded, and nothing else,
  together with \<open>ErrMeetingTimeout\<close>.
\<close>

theorem expired_deadline_stops_at_next_turn:
  assumes "aiConfig = Some config" and "req_all_agents req \<noteq> []"
    and "w_create_model w = None" and "w_analyze w = Inr decision"
    and "filterAgentsOrdered (req_all_agents req) (dec_selected decision) = selected"
    and k: "k < length selected"
    and expired: "w_meeting_done w k"
    and before: "\<forall>j<k. \<not> w_meeting_done w j"
    and run: "RunSmartMeetingWithCallback w aiConfig req rcb pcb = (responses, err, trace)"
  shows "err = Some ErrMeetingTimeout \<and> map fst (agent_runs trace) = take k selected \<and>
         responses = opening_response decision # opinions_of (agent_runs trace) \<and>
         summary_runs trace = [] \<and> memory_saves trace = []"
proof -
  from k have ne: "selected \<noteq> []" by auto
  from smart_meeting_result [OF assms(1-5) ne run] obtain b where
    e: "err = (if b then Some ErrMeetingTimeout else None)"
    and r: "responses = opening_response decision # opinions_of (agent_runs trace) @
       (if b then []
        else summary_part w (w_meeting_done w (length selected)) (entries_of (agent_runs trace)))"
    and s: "if b then (\<exists>k<length selected. w_meeting_done w k \<and>
                   (\<forall>j<k. \<not> w_meeting_done w j) \<and> map fst (agent_runs trace) = take k selected)
      else (\<forall>j<length selected. \<not> w_meeting_done w j) \<and> map fst (agent_runs trace) = selected"
    and q: "summary_runs trace =
       (if b then []
        else [(w_meeting_done w (length selected), entries_of (agent_runs trace),
               w_summarize w (w_meeting_done w (length selected))
                 (entries_of (agent_runs trace)))])"
      "if b then memory_saves trace = [] else True"
    by blast
  have b: b
  proof (rule ccontr)
    assume "\<not> b"
    with s have "\<forall>j<length selected. \<not> w_meeting_done w j" by simp
    with k expired show False by blast
  qed
  with s obtain k' where k': "k' < length selected" "w_meeting_done w k'"
    "\<forall>j<k'. \<not> w_meeting_done w j" "map fst (agent_runs trace) = take k' selected"
    by auto
  have "k' = k"
  proof (rule ccontr)
    assume "k' \<noteq> k"
    then consider "k' < k" | "k < k'" by linarith
    then show False
    proof cases
      case 1
      with before k'(2) show False by blast
    next
      case 2
      with k'(3) expired show False by blast
    qed
  qed
  with b e r q k' show ?thesis by simp
qed

section \<open>Empty transcripts\<close>

text \<open>
  C8, as amended. A smart meeting returns no response exactly when it returns an error
  that is neither nil nor the meeting timeout, and then no agent was called. Otherwise,
  with a nil error or the meeting timeout, its responses are the opening that the
  analysis decided on, then the opinions of the agent calls that succeeded, then the
  summary, if \<open>moderator.Summarize\<close> was called and returned a non-empty one. A panel
  call returns the error of the model creation and nothing else, and it returns no
  response exactly when the model could not be created or every agent it ran failed.
\<close>

theorem empty_transcript_conditions:
  assumes "RunSmartMeetingWithCallback w aiConfig req rcb pcb = (responses, err, trace)"
    and "SendMessage pw preq = (presponses, perr)"
  shows "(responses = [] \<longleftrightarrow> err \<noteq> None \<and> err \<noteq> Some ErrMeetingTimeout) \<and>
         (responses = [] \<longrightarrow> agent_runs trace = []) \<and>
         (responses \<noteq> [] \<longrightarrow>
            (\<exists>decision. w_analyze w = Inr decision \<and>
               responses = opening_response decision # opinions_of (agent_runs trace) @
                 summaries_of (summary_runs trace))) \<and>
         perr = pw_create_model pw \<and>
         (presponses = [] \<longleftrightarrow>
            pw_create_model pw \<noteq> None \<or>
            (\<forall>i\<in>set (pw_finish_order pw). i < length (req_agents preq) \<longrightarrow>
               isl (runSingleAgentWithContext (pw_agent pw i (req_agents preq ! i)))))"
proof -
  from assms(1) have smart: "(responses = [] \<longleftrightarrow> err \<noteq> None \<and> err \<noteq> Some ErrMeetingTimeout) \<and>
         (responses = [] \<longrightarrow> agent_runs trace = [])"
  proof (cases rule: smart_meeting_cases)
    case failed
    then show ?thesis by simp
  next
    case (nobody decision)
    then show ?thesis by simp
  next
    case (ran config decision selected)
    from smart_meeting_result [OF ran assms(1)] show ?thesis
      by (auto split: if_splits)
  qed
  from assms(1) have transcript: "responses \<noteq> [] \<longrightarrow>
            (\<exists>decision. w_analyze w = Inr decision \<and>
               responses = opening_response decision # opinions_of (agent_runs trace) @
                 summaries_of (summary_runs trace))"
  proof (cases rule: smart_meeting_cases)
    case failed
    then show ?thesis by simp
  next
    case (nobody decision)
    then show ?thesis
      by (simp add: runs_views_simps summaries_of_simps)
  next
    case (ran config decision selected)
    from smart_meeting_result [OF ran assms(1)] obtain b where
      r: "responses = opening_response decision # opinions_of (agent_runs trace) @
         (if b then []
          else summary_part w (w_meeting_done w (length selected))
                 (entries_of (agent_runs trace)))"
      and q: "summary_runs trace =
         (if b then []
          else [(w_meeting_done w (length selected), entries_of (agent_runs trace),
                 w_summarize w (w_meeting_done w (length selected))
                   (entries_of (agent_runs trace)))])"
      by blast
    have "responses = opening_response decision # opinions_of (agent_runs trace) @
        summaries_of (summary_runs trace)"
      unfolding q using r by (cases b) (simp_all add: summaries_of_simps)
    with ran(4) show ?thesis by blast
  qed
  have panel: "perr = pw_create_model pw \<and>
         (presponses = [] \<longleftrightarrow>
            pw_create_model pw \<noteq> None \<or>
            (\<forall>i\<in>set (pw_finish_order pw). i < length (req_agents preq) \<longrightarrow>
               isl (runSingleAgentWithContext (pw_agent pw i (req_agents preq ! i)))))"
  proof (cases "pw_create_model pw")
    case (Some e)
    with assms(2) show ?thesis by (auto simp: SendMessage_def)
  next
    case None
    let ?f = "\<lambda>i. if i < length (req_agents preq) then
          (case runSingleAgentWithContext (pw_agent pw i (req_agents preq ! i)) of
             Inl err \<Rightarrow> []
           | Inr content \<Rightarrow> [panel_response (req_agents preq ! i) content])
        else []"
    from None assms(2) have e: "perr = None"
      and r: "presponses = concat (map ?f (pw_finish_order pw))"
      by (simp_all add: SendMessage_def runAgentsParallel_def)
    have c: "(concat (map f xs) = []) = (\<forall>x\<in>set xs. f x = [])"
      for f :: "nat \<Rightarrow> ChatResponse list" and xs
      by (induction xs) auto
    have i: "(?f i = []) =
        (i < length (req_agents preq) \<longrightarrow>
           isl (runSingleAgentWithContext (pw_agent pw i (req_agents preq ! i))))" for i
      by (cases "runSingleAgentWithContext (pw_agent pw i (req_agents preq ! i))") auto
    have "(presponses = []) =
        (\<forall>i\<in>set (pw_finish_order pw). i < length (req_agents preq) \<longrightarrow>
               isl (runSingleAgentWithContext (pw_agent pw i (req_agents preq ! i))))"
      unfolding r c i ..
    with None e show ?thesis by simp
  qed
  from smart transcript panel show ?thesis by blast
qed

section \<open>The previous-discussion context\<close>

lemma find_after_decomposes: "find_after c s = Some r \<Longrightarrow> \<exists>a. s = a @ c @ r"
proof (induction s)
  case Nil
  then show ?case by (auto split: if_splits)
next
  case (Cons x xs)
  show ?case
  proof (cases "take (length c) (x # xs) = c")
    case True
    with Cons.prems have "r = drop (length c) (x # xs)" by simp
    with True have "x # xs = [] @ c @ r" by (metis append_Nil append_take_drop_id)
    then show ?thesis by blast
  next
    case False
    with Cons.prems have "find_after c xs = Some r" by simp
    with Cons.IH obtain a where "xs = a @ c @ r" by blast
    then have "x # xs = (x # a) @ c @ r" by simp
    then show ?thesis by blast
  qed
qed

lemma find_after_finds: "\<exists>q. find_after c (a @ c @ r) = Some (q @ r)"
proof (induction a)
  case Nil
  show ?case
  proof (cases "c @ r")
    case Nil
    then show ?thesis by simp
  next
    case (Cons x xs)
    then have "find_after c (c @ r) = Some r" by (metis append_eq_conv_conj find_after.simps(2))
    then show ?thesis by (intro exI [of _ "[]"]) simp
  qed
next
  case (Cons x a)
  show ?case
  proof (cases "take (length c) (x # a @ c @ r) = c")
    case True
    have "drop (length c) ((x # a @ c) @ r) =
        drop (length c) (x # a @ c) @ drop (length c - length (x # a @ c)) r"
      by (rule drop_append)
    then have "drop (length c) (x # a @ c @ r) = drop (length c) (x # a @ c) @ r"
      by simp
    with True show ?thesis
      by (intro exI [of _ "drop (length c) (x # a @ c)"]) simp
  next
    case False
    with Cons.IH show ?thesis by simp
  qed
qed

lemma contains_in_order_prefix:
  "contains_in_order cs s \<Longrightarrow> contains_in_order cs (p @ s)"
proof (induction cs arbitrary: s p)
  case Nil
  show ?case by simp
next
  case (Cons c cs)
  from Cons.prems obtain rest where f: "find_after c s = Some rest"
    and c: "contains_in_order cs rest"
    by (auto split: option.splits)
  from find_after_decomposes [OF f] obtain a where "s = a @ c @ rest" by blast
  then have "p @ s = (p @ a) @ c @ rest" by simp
  with find_after_finds [of c "p @ a" rest] obtain q where
    "find_after c (p @ s) = Some (q @ rest)" by auto
  moreover from c have "contains_in_order cs (q @ rest)" by (rule Cons.IH)
  ultimately show ?case by simp
qed

text \<open>The definition by search agrees with the plain reading of "occur in order".\<close>

lemma contains_in_order_Cons_iff:
  "contains_in_order (c # cs) s \<longleftrightarrow> (\<exists>a r. s = a @ c @ r \<and> contains_in_order cs r)"
proof
  assume "contains_in_order (c # cs) s"
  then obtain rest where f: "find_after c s = Some rest" and c: "contains_in_order cs rest"
    by (auto split: option.splits)
  from find_after_decomposes [OF f] c show "\<exists>a r. s = a @ c @ r \<and> contains_in_order cs r"
    by blast
next
  assume "\<exists>a r. s = a @ c @ r \<and> contains_in_order cs r"
  then obtain a r where s: "s = a @ c @ r" and c: "contains_in_order cs r" by blast
  from find_after_finds [of c a r] obtain q where "find_after c s = Some (q @ r)"
    using s by auto
  moreover from c have "contains_in_order cs (q @ r)" by (rule contains_in_order_prefix)
  ultimately show "contains_in_order (c # cs) s" by simp
qed

lemma contains_previous_lines:
  "contains_in_order (map de_content history) (concat (map previous_line history))"
proof (induction history)
  case Nil
  show ?case by simp
next
  case (Cons e history)
  let ?a = "''- '' @ de_agent_name e @ [CHR 0xEF, CHR 0xBC, CHR 0x88] @ de_role e @
     [CHR 0xEF, CHR 0xBC, CHR 0x89, CHR 0xEF, CHR 0xBC, CHR 0x9A]"
  let ?r = "[CHR 0x0A, CHR 0x0A] @ concat (map previous_line history)"
  have "concat (map previous_line (e # history)) = ?a @ de_content e @ ?r"
    by (simp add: previous_line_def)
  moreover have "contains_in_order (map de_content history) ?r"
    using Cons.IH by (rule contains_in_order_prefix)
  ultimately show ?case
    unfolding list.map contains_in_order_Cons_iff by blast
qed

lemma contains_loop_context:
  "contains_in_order (map de_content history) (loop_context mem history)"
proof (cases history)
  case Nil
  then show ?thesis by simp
next
  case (Cons e es)
  have "contains_in_order (map de_content history)
          (previous_header @ concat (map previous_line history))"
    using contains_previous_lines by (rule contains_in_order_prefix)
  then have b: "contains_in_order (map de_content history) (buildPreviousContext history)"
    using Cons by (simp add: buildPreviousContext_def)
  show ?thesis
  proof (cases "mem = []")
    case True
    with b show ?thesis by (simp add: loop_context_def)
  next
    case False
    have "contains_in_order (map de_content history)
            ((mem @ [CHR 0x0A]) @ buildPreviousContext history)"
      using b by (rule contains_in_order_prefix)
    with False show ?thesis by (simp add: loop_context_def)
  qed
qed

lemma contents_of_entries: "map de_content (entries_of runs) = map cr_content (opinions_of runs)"
  by (induction runs)
    (auto simp: entries_of_def opinions_of_def history_entry_def opinion_response_def
      split: sum.splits)

text \<open>
  C9. In every smart meeting, the previous-discussion context handed to an agent call
  contains, verbatim and in speaking order, the content of every opinion produced by the
  agent calls before it; the calls that failed produced none.
\<close>

theorem context_contains_earlier_opinions:
  assumes "RunSmartMeetingWithCallback w aiConfig req rcb pcb = (responses, err, trace)"
    and "k < length (agent_runs trace)"
  shows "contains_in_order (map cr_content (opinions_of (take k (agent_runs trace))))
           (fst (snd (agent_runs trace ! k)))"
  using assms(1)
proof (cases rule: smart_meeting_cases)
  case failed
  with assms(2) show ?thesis by simp
next
  case (nobody decision)
  with assms(2) show ?thesis by simp
next
  case (ran config decision selected)
  from smart_meeting_result [OF ran assms(1)] assms(2)
  have "fst (snd (agent_runs trace ! k)) =
      loop_context (memoryContext_of w) (entries_of (take k (agent_runs trace)))"
    by blast
  then show ?thesis
    using contains_loop_context [of "entries_of (take k (agent_runs trace))" "memoryContext_of w"]
    by (simp add: contents_of_entries)
qed

section \<open>The example meetings, evaluated\<close>

lemmas meeting_run_defs =
  RunSmartMeetingWithCallback_def opening_state_def memoryContext_of_def final_round_def
  filterAgentsOrdered_def runSingleAgentWithHistory_def history_part_def emit_def
  buildPreviousContext_def previous_line_def previous_header_def
  opening_response_def opinion_response_def summary_response_def history_entry_def
  text_event_def speaking_def timing_out_def LLMResponse_zero_def Part_zero_def
  expert_1_def expert_2_def expert_3_def expert_4_def expert_5_def

lemma scenario_B_run:
  "RunSmartMeetingWithCallback scenario_B (Some ()) request_3 False False =
     ([opening_response \<lparr>dec_selected = [''a1'', ''a2'', ''a3''], dec_opening = ''Welcome'',
                         dec_topic = ''outlook''\<rparr>,
       opinion_response expert_1 ''view of a1'',
       opinion_response expert_3 ''view of a3'',
       summary_response ''Summary''],
      None,
      [AgentRun expert_1 [] (Inr ''view of a1''),
       AgentRun expert_2
         (previous_header @ ''- Ann'' @ [CHR 0xEF, CHR 0xBC, CHR 0x88] @ ''fundamentals'' @
          [CHR 0xEF, CHR 0xBC, CHR 0x89, CHR 0xEF, CHR 0xBC, CHR 0x9A] @ ''view of a1'' @
          [CHR 0x0A, CHR 0x0A])
         (Inl DeadlineExceeded),
       AgentRun expert_3
         (previous_header @ ''- Ann'' @ [CHR 0xEF, CHR 0xBC, CHR 0x88] @ ''fundamentals'' @
          [CHR 0xEF, CHR 0xBC, CHR 0x89, CHR 0xEF, CHR 0xBC, CHR 0x9A] @ ''view of a1'' @
          [CHR 0x0A, CHR 0x0A])
         (Inr ''view of a3''),
       SummarizeRun False
         [history_entry expert_1 ''view of a1'', history_entry expert_3 ''view of a3'']
         (Inr ''Summary'')])"
  by (simp add: scenario_B_def request_3_def meeting_run_defs)

lemma scenario_B_pre:
  "(Some () :: unit option) = Some ()" "req_all_agents request_3 \<noteq> []"
  "w_create_model scenario_B = None"
  "w_analyze scenario_B = Inr \<lparr>dec_selected = [''a1'', ''a2'', ''a3''], dec_opening = ''Welcome'',
                         dec_topic = ''outlook''\<rparr>"
  "filterAgentsOrdered (req_all_agents request_3)
     (dec_selected \<lparr>dec_selected = [''a1'', ''a2'', ''a3''], dec_opening = ''Welcome'',
                         dec_topic = ''outlook''\<rparr>) = [expert_1, expert_2, expert_3]"
  by (simp_all add: scenario_B_def request_3_def filterAgentsOrdered_def
      expert_1_def expert_2_def expert_3_def)

theorem failed_agent_is_skipped_witness:
  "fst (snd (RunSmartMeetingWithCallback scenario_B (Some ()) request_3 False False)) = None \<and>
   map fst (agent_runs (snd (snd
     (RunSmartMeetingWithCallback scenario_B (Some ()) request_3 False False)))) =
     [expert_1, expert_2, expert_3] \<and>
   map (snd \<circ> snd) (agent_runs (snd (snd
     (RunSmartMeetingWithCallback scenario_B (Some ()) request_3 False False)))) =
     [Inr ''view of a1'', Inl DeadlineExceeded, Inr ''view of a3''] \<and>
   map cr_msg_type (fst (RunSmartMeetingWithCallback scenario_B (Some ()) request_3 False False)) =
     [''opening'', ''opinion'', ''opinion'', ''summary''] \<and>
   map cr_agent_id (fst (RunSmartMeetingWithCallback scenario_B (Some ()) request_3 False False)) =
     [''moderator'', ''a1'', ''a3'', ''moderator'']"
proof -
  have alive: "\<forall>i<length [expert_1, expert_2, expert_3]. \<not> w_meeting_done scenario_B i"
    by (simp add: scenario_B_def)
  have ne: "[expert_1, expert_2, expert_3] \<noteq> []" by simp
  from failed_agent_is_skipped [OF scenario_B_pre ne alive scenario_B_run]
  have "map fst (agent_runs (snd (snd
     (RunSmartMeetingWithCallback scenario_B (Some ()) request_3 False False)))) =
     [expert_1, expert_2, expert_3]"
    unfolding scenario_B_run by simp
  then show ?thesis
    by (simp add: scenario_B_run agent_runs_Cons agent_runs_simps opening_response_def
        opinion_response_def summary_response_def expert_1_def expert_2_def expert_3_def)
qed

theorem context_contains_earlier_opinions_witness:
  "map cr_content (opinions_of (take 2 (agent_runs (snd (snd
     (RunSmartMeetingWithCallback scenario_B (Some ()) request_3 False False)))))) =
     [''view of a1''] \<and>
   fst (snd (agent_runs (snd (snd
     (RunSmartMeetingWithCallback scenario_B (Some ()) request_3 False False))) ! 2)) =
     previous_header @ ''- Ann'' @ [CHR 0xEF, CHR 0xBC, CHR 0x88] @ ''fundamentals'' @
     [CHR 0xEF, CHR 0xBC, CHR 0x89, CHR 0xEF, CHR 0xBC, CHR 0x9A] @ ''view of a1'' @
     [CHR 0x0A, CHR 0x0A] \<and>
   contains_in_order [''view of a1'']
     (previous_header @ ''- Ann'' @ [CHR 0xEF, CHR 0xBC, CHR 0x88] @ ''fundamentals'' @
      [CHR 0xEF, CHR 0xBC, CHR 0x89, CHR 0xEF, CHR 0xBC, CHR 0x9A] @ ''view of a1'' @
      [CHR 0x0A, CHR 0x0A])"
proof -
  have k: "2 < length (agent_runs (snd (snd
     (RunSmartMeetingWithCallback scenario_B (Some ()) request_3 False False))))"
    by (simp add: scenario_B_run agent_runs_Cons agent_runs_simps)
  from context_contains_earlier_opinions [OF scenario_B_run, of 2] k
  show ?thesis
    by (simp add: scenario_B_run agent_runs_Cons agent_runs_simps opinions_of_def
        opinion_response_def)
qed

theorem moderator_timeout_fails_meeting_witness:
  "RunSmartMeetingWithCallback scenario_C (Some ()) request_3 False False =
     ([], Some (Wrapped moderator_timeout_format ErrModeratorTimeout), []) \<and>
   errors_Is (Wrapped moderator_timeout_format ErrModeratorTimeout) ErrModeratorTimeout \<and>
   agent_runs (snd (snd (RunSmartMeetingWithCallback scenario_C (Some ()) request_3 False False)))
     = []"
proof -
  have a: "req_all_agents request_3 \<noteq> []" by (simp add: request_3_def)
  have b: "w_create_model scenario_C = None" by (simp add: scenario_C_def scenario_B_def)
  have c: "w_analyze scenario_C = Inl (Wrapped ''generate content: %w'' DeadlineExceeded)"
    by (simp add: scenario_C_def)
  have d: "errors_Is (Wrapped ''generate content: %w'' DeadlineExceeded) DeadlineExceeded"
    by simp
  from moderator_timeout_fails_meeting [where aiConfig = "Some ()" and rcb = False and pcb = False,
      OF refl a b c d]
  show ?thesis by (simp add: emit_def agent_runs_simps)
qed

lemma scenario_E_run:
  "RunSmartMeetingWithCallback scenario_E (Some ()) request_5 False False =
     ([opening_response \<lparr>dec_selected = [''a1'', ''a2'', ''a3'', ''a4'', ''a5''],
                         dec_opening = ''Welcome'', dec_topic = ''outlook''\<rparr>,
       opinion_response expert_1 ''view of a1'',
       opinion_response expert_2 ''view of a2''],
      Some ErrMeetingTimeout,
      [AgentRun expert_1 [] (Inr ''view of a1''),
       AgentRun expert_2
         (previous_header @ ''- Ann'' @ [CHR 0xEF, CHR 0xBC, CHR 0x88] @ ''fundamentals'' @
          [CHR 0xEF, CHR 0xBC, CHR 0x89, CHR 0xEF, CHR 0xBC, CHR 0x9A] @ ''view of a1'' @
          [CHR 0x0A, CHR 0x0A])
         (Inr ''view of a2'')])"
  by (simp add: scenario_E_def request_5_def meeting_run_defs)

theorem expired_deadline_stops_at_next_turn_witness:
  "fst (snd (RunSmartMeetingWithCallback scenario_E (Some ()) request_5 False False)) =
     Some ErrMeetingTimeout \<and>
   map fst (agent_runs (snd (snd
     (RunSmartMeetingWithCallback scenario_E (Some ()) request_5 False False)))) =
     [expert_1, expert_2] \<and>
   map cr_msg_type (fst (RunSmartMeetingWithCallback scenario_E (Some ()) request_5 False False)) =
     [''opening'', ''opinion'', ''opinion''] \<and>
   map cr_agent_id (fst (RunSmartMeetingWithCallback scenario_E (Some ()) request_5 False False)) =
     [''moderator'', ''a1'', ''a2''] \<and>
   summary_runs (snd (snd
     (RunSmartMeetingWithCallback scenario_E (Some ()) request_5 False False))) = [] \<and>
   memory_saves (snd (snd
     (RunSmartMeetingWithCallback scenario_E (Some ()) request_5 False False))) = []"
proof -
  have a: "req_all_agents request_5 \<noteq> []" by (simp add: request_5_def)
  have b: "w_create_model scenario_E = None" by (simp add: scenario_E_def)
  have c: "w_analyze scenario_E = Inr \<lparr>dec_selected = [''a1'', ''a2'', ''a3'', ''a4'', ''a5''],
                         dec_opening = ''Welcome'', dec_topic = ''outlook''\<rparr>"
    by (simp add: scenario_E_def)
  have d: "filterAgentsOrdered (req_all_agents request_5)
     (dec_selected \<lparr>dec_selected = [''a1'', ''a2'', ''a3'', ''a4'', ''a5''],
                         dec_opening = ''Welcome'', dec_topic = ''outlook''\<rparr>) =
      [expert_1, expert_2, expert_3, expert_4, expert_5]"
    by (simp add: request_5_def filterAgentsOrdered_def
      expert_1_def expert_2_def expert_3_def expert_4_def expert_5_def)
  have k: "2 < length [expert_1, expert_2, expert_3, expert_4, expert_5]" by simp
  have e: "w_meeting_done scenario_E 2" by (simp add: scenario_E_def)
  have f: "\<forall>j<2. \<not> w_meeting_done scenario_E j" by (simp add: scenario_E_def)
  from expired_deadline_stops_at_next_turn [OF refl a b c d k e f scenario_E_run]
  have "map fst (agent_runs (snd (snd
     (RunSmartMeetingWithCallback scenario_E (Some ()) request_5 False False)))) =
     take 2 [expert_1, expert_2, expert_3, expert_4, expert_5]"
    unfolding scenario_E_run by simp
  then show ?thesis
    by (simp add: scenario_E_run agent_runs_Cons agent_runs_simps opening_response_def
        opinion_response_def expert_1_def expert_2_def summary_runs_Cons summary_runs_simps
        memory_saves_Cons memory_saves_simps)
qed

text \<open>
  C6 as stated fails: here five agents are selected and the first four calls end on a
  deadline; the fifth turn finds the meeting's deadline expired, so that the fifth agent
  is never called and the meeting returns \<open>ErrMeetingTimeout\<close> to its caller.
\<close>

theorem five_timeouts_end_the_meeting:
  "filterAgentsOrdered (req_all_agents request_5) [''a1'', ''a2'', ''a3'', ''a4'', ''a5''] =
     [expert_1, expert_2, expert_3, expert_4, expert_5] \<and>
   RunSmartMeetingWithCallback five_timeouts (Some ()) request_5 False False =
     ([opening_response \<lparr>dec_selected = [''a1'', ''a2'', ''a3'', ''a4'', ''a5''],
                         dec_opening = ''Welcome'', dec_topic = ''outlook''\<rparr>],
      Some ErrMeetingTimeout,
      [AgentRun expert_1 [] (Inl DeadlineExceeded),
       AgentRun expert_2 [] (Inl DeadlineExceeded),
       AgentRun expert_3 [] (Inl DeadlineExceeded),
       AgentRun expert_4 [] (Inl DeadlineExceeded)])"
  by (simp add: five_timeouts_def scenario_E_def request_5_def meeting_run_defs)

text \<open>
  C7 as stated fails: here the meeting's deadline has expired when the summary step
  starts; the step starts all the same, \<open>moderator.Summarize\<close> is called with a context
  that is already done, and the meeting returns the opening alone with a nil error, not
  \<open>ErrMeetingTimeout\<close>.
\<close>

theorem deadline_in_last_turn_unflagged:
  "w_meeting_done deadline_in_last_turn 1 \<and>
   RunSmartMeetingWithCallback deadline_in_last_turn (Some ()) request_1 False False =
     ([opening_response \<lparr>dec_selected = [''a1''], dec_opening = ''Welcome'',
                         dec_topic = ''outlook''\<rparr>],
      None,
      [AgentRun expert_1 [] (Inl DeadlineExceeded),
       SummarizeRun True [] (Inl DeadlineExceeded)])"
  by (simp add: deadline_in_last_turn_def request_1_def meeting_run_defs)

text \<open>
  C8 as stated fails: a panel whose only agent fails returns no response and a nil error.
\<close>

theorem failing_panel_silent:
  "req_agents request_1 = [expert_1] \<and> SendMessage failing_panel request_1 = ([], None)"
  by (simp add: SendMessage_def runAgentsParallel_def runSingleAgentWithContext_def
      failing_panel_def request_1_def timing_out_def)

theorem empty_transcript_conditions_witness:
  "fst (RunSmartMeetingWithCallback scenario_C (Some ()) request_3 False False) = [] \<and>
   fst (snd (RunSmartMeetingWithCallback scenario_C (Some ()) request_3 False False)) =
     Some (Wrapped moderator_timeout_format ErrModeratorTimeout) \<and>
   fst (snd (RunSmartMeetingWithCallback scenario_E (Some ()) request_5 False False)) =
     Some ErrMeetingTimeout \<and>
   fst (RunSmartMeetingWithCallback scenario_E (Some ()) request_5 False False) =
     opening_response \<lparr>dec_selected = [''a1'', ''a2'', ''a3'', ''a4'', ''a5''],
                        dec_opening = ''Welcome'', dec_topic = ''outlook''\<rparr> #
     opinions_of (agent_runs (snd (snd
       (RunSmartMeetingWithCallback scenario_E (Some ()) request_5 False False)))) @
     summaries_of (summary_runs (snd (snd
       (RunSmartMeetingWithCallback scenario_E (Some ()) request_5 False False)))) \<and>
   fst (SendMessage failing_panel request_1) = [] \<and>
   snd (SendMessage failing_panel request_1) = None \<and>
   isl (runSingleAgentWithContext (pw_agent failing_panel 0 (req_agents request_1 ! 0)))"
proof -
  have t: "fst (RunSmartMeetingWithCallback scenario_E (Some ()) request_5 False False) =
     opening_response \<lparr>dec_selected = [''a1'', ''a2'', ''a3'', ''a4'', ''a5''],
                        dec_opening = ''Welcome'', dec_topic = ''outlook''\<rparr> #
     opinions_of (agent_runs (snd (snd
       (RunSmartMeetingWithCallback scenario_E (Some ()) request_5 False False)))) @
     summaries_of (summary_runs (snd (snd
       (RunSmartMeetingWithCallback scenario_E (Some ()) request_5 False False))))"
    by (simp add: scenario_E_run agent_runs_Cons agent_runs_simps summary_runs_Cons
        summary_runs_simps summaries_of_simps runs_views_simps opinions_of_def)
  have s: "RunSmartMeetingWithCallback scenario_C (Some ()) request_3 False False =
     ([], Some (Wrapped moderator_timeout_format ErrModeratorTimeout), [])"
    by (simp add: RunSmartMeetingWithCallback_def scenario_C_def scenario_B_def request_3_def
        emit_def)
  have p: "SendMessage failing_panel request_1 = ([], None)"
    by (simp add: SendMessage_def runAgentsParallel_def runSingleAgentWithContext_def
      failing_panel_def request_1_def timing_out_def)
  have i: "isl (runSingleAgentWithContext (pw_agent failing_panel 0 (req_agents request_1 ! 0)))"
    by (simp add: failing_panel_def request_1_def runSingleAgentWithContext_def timing_out_def)
  have e: "fst (snd (RunSmartMeetingWithCallback scenario_E (Some ()) request_5 False False)) =
     Some ErrMeetingTimeout"
    by (simp add: scenario_E_run)
  from empty_transcript_conditions [OF s p] empty_transcript_conditions [OF scenario_E_run p]
  show ?thesis
    by (simp add: s p i t e)
qed

section \<open>The text that an agent's run returns\<close>

lemma history_part_content:
  "fst (history_part cfg pcb partial (content, events) part) =
     foldl absorb content (part_texts partial part)"
  by (simp add: history_part_def part_texts_def absorb_def Let_def)

lemma history_parts_content:
  "fst (foldl (history_part cfg pcb partial) acc parts) =
     foldl absorb (fst acc) (concat (map (part_texts partial) parts))"
proof (induction parts arbitrary: acc)
  case Nil
  show ?case by simp
next
  case (Cons p ps)
  obtain content events where acc: "acc = (content, events)" by (cases acc)
  show ?case
    by (simp add: Cons.IH acc history_part_content)
qed

lemma history_events_content:
  "\<not> list_ex isl items \<Longrightarrow>
   snd (history_events cfg pcb acc items) = Inr (foldl absorb (fst acc) (text_parts items))"
proof (induction items arbitrary: acc)
  case Nil
  obtain content events where "acc = (content, events)" by (cases acc)
  then show ?case by (simp add: text_parts_def)
next
  case (Cons item items)
  from Cons.prems have ok: "\<not> list_ex isl items" and item: "\<not> isl item" by simp_all
  have tp: "text_parts (item # items) = text_parts [item] @ text_parts items"
    by (simp add: text_parts_def)
  from item obtain ev where ev: "item = Inr ev" by (cases item) simp_all
  show ?case
  proof (cases ev)
    case None
    with ev Cons.IH [OF ok] show ?thesis
      by (simp add: text_parts_def)
  next
    case (Some event)
    show ?thesis
    proof (cases "lr_content event")
      case None
      with ev Some Cons.IH [OF ok] show ?thesis
        by (simp add: text_parts_def)
    next
      case (Some c)
      with ev \<open>ev = Some event\<close> Cons.IH [OF ok] show ?thesis
        by (simp add: tp history_parts_content) (simp add: text_parts_def)
    qed
  qed
qed

lemma text_parts_nonempty: "pt \<in> set (text_parts items) \<Longrightarrow> snd pt \<noteq> []"
  by (auto simp: text_parts_def part_texts_def split: sum.splits option.splits if_splits)

lemma absorb_after_text:
  "content \<noteq> [] \<Longrightarrow> foldl absorb content ps = content @ concat (map snd (filter fst ps))"
proof (induction ps arbitrary: content)
  case Nil
  show ?case by simp
next
  case (Cons p ps)
  from Cons.prems have "absorb content p \<noteq> []" by (simp add: absorb_def)
  from Cons.IH [OF this] Cons.prems show ?case
    by (simp add: absorb_def)
qed

lemma absorb_no_partial:
  "content \<noteq> [] \<Longrightarrow> \<not> list_ex fst ps \<Longrightarrow> foldl absorb content ps = content"
  by (simp add: absorb_after_text list_ex_iff filter_False)

text \<open>
  When the first text that a run delivers is a partial fragment, the returned text is
  the concatenation of the partial fragments, and every text of a non-partial event is
  left out.
\<close>

theorem partial_fragments_win_after_first_fragment:
  assumes "aw_build aw = None" and "aw_runner aw = None" and "aw_session aw = None"
    and "\<not> list_ex isl (aw_events aw)"
    and "text_parts (aw_events aw) = (True, t) # rest"
  shows "snd (runSingleAgentWithHistory aw cfg progress) =
           Inr (concat (map snd (filter fst (text_parts (aw_events aw)))))"
proof -
  have "(True, t) \<in> set (text_parts (aw_events aw))" using assms(5) by simp
  from text_parts_nonempty [OF this] have t: "t \<noteq> []" by simp
  have "snd (runSingleAgentWithHistory aw cfg progress) =
      Inr (foldl absorb [] (text_parts (aw_events aw)))"
    using assms(1-3) history_events_content [OF assms(4), of cfg progress "([], [])"]
    by (simp add: runSingleAgentWithHistory_def)
  also have "foldl absorb [] (text_parts (aw_events aw)) = foldl absorb t rest"
    by (simp add: assms(5) absorb_def)
  also have "\<dots> = t @ concat (map snd (filter fst rest))"
    using t by (rule absorb_after_text)
  finally show ?thesis by (simp add: assms(5))
qed

text \<open>
  When a run delivers no partial fragment, the returned text is the first text that a
  non-partial event delivers, and that text alone.
\<close>

theorem final_text_used_without_fragments:
  assumes "aw_build aw = None" and "aw_runner aw = None" and "aw_session aw = None"
    and "\<not> list_ex isl (aw_events aw)"
    and "\<not> list_ex fst (text_parts (aw_events aw))"
  shows "snd (runSingleAgentWithHistory aw cfg progress) =
           Inr (case text_parts (aw_events aw) of [] \<Rightarrow> [] | pt # rest \<Rightarrow> snd pt)"
proof -
  have r: "snd (runSingleAgentWithHistory aw cfg progress) =
      Inr (foldl absorb [] (text_parts (aw_events aw)))"
    using assms(1-3) history_events_content [OF assms(4), of cfg progress "([], [])"]
    by (simp add: runSingleAgentWithHistory_def)
  show ?thesis
  proof (cases "text_parts (aw_events aw)")
    case Nil
    with r show ?thesis by simp
  next
    case (Cons pt rest)
    then have "pt \<in> set (text_parts (aw_events aw))" by simp
    from text_parts_nonempty [OF this] have t: "snd pt \<noteq> []" .
    from assms(5) Cons have np: "\<not> fst pt" "\<not> list_ex fst rest" by simp_all
    have "foldl absorb [] (pt # rest) = foldl absorb (snd pt) rest"
      using np by (simp add: absorb_def)
    also have "\<dots> = snd pt" using t np(2) by (rule absorb_no_partial)
    finally show ?thesis using r Cons by simp
  qed
qed

theorem partial_fragments_win_example:
  "snd (runSingleAgentWithHistory (speaking ''a1'') expert_1 False) = Inr ''view of a1''"
proof -
  have e: "\<not> list_ex isl (aw_events (speaking ''a1''))"
    by (simp add: speaking_def text_event_def)
  have t: "text_parts (aw_events (speaking ''a1'')) =
      (True, ''view of '') # [(True, ''a1''), (False, ''view of a1'')]"
    by (simp add: speaking_def text_event_def text_parts_def part_texts_def
        LLMResponse_zero_def Part_zero_def)
  have b: "aw_build (speaking ''a1'') = None" "aw_runner (speaking ''a1'') = None"
    "aw_session (speaking ''a1'') = None"
    by (simp_all add: speaking_def)
  from partial_fragments_win_after_first_fragment [OF b e t, of expert_1 False]
  show ?thesis unfolding t by simp
qed

theorem final_text_used_example:
  "snd (runSingleAgentWithHistory final_with_two_texts expert_1 False) = Inr ''A''"
proof -
  have e: "\<not> list_ex isl (aw_events final_with_two_texts)"
    by (simp add: final_with_two_texts_def)
  have t: "text_parts (aw_events final_with_two_texts) = [(False, ''A''), (False, ''B'')]"
    by (simp add: final_with_two_texts_def text_parts_def part_texts_def
        LLMResponse_zero_def Part_zero_def)
  have n: "\<not> list_ex fst (text_parts (aw_events final_with_two_texts))"
    by (simp add: t)
  have b: "aw_build final_with_two_texts = None" "aw_runner final_with_two_texts = None"
    "aw_session final_with_two_texts = None"
    by (simp_all add: final_with_two_texts_def)
  from final_text_used_without_fragments [OF b e n, of expert_1 False]
  show ?thesis unfolding t by simp
qed

text \<open>
  C4. The returned text is not always what the claim says. The text of a final event
  that arrives before the first partial fragment is kept, and the fragments are appended
  to it; and of a final event with two text parts, received without any partial
  fragment, only the first part is returned.
\<close>

theorem runSingleAgentWithHistory_fallback_slips:
  "snd (runSingleAgentWithHistory final_before_partial expert_1 False) = Inr ''AB'' \<and>
   snd (runSingleAgentWithHistory final_with_two_texts expert_1 False) = Inr ''A''"
  by (simp add: runSingleAgentWithHistory_def final_before_partial_def final_with_two_texts_def
      text_event_def history_part_def LLMResponse_zero_def Part_zero_def)

end
